theory Spec2Isabelle
  imports Main "HOL-Library.AList" "HOL-Library.Multiset"
begin

section \<open>Data model of \<open>internal/app/state.go\<close>\<close>

text \<open>
  A Go map is modelled as an optional association list: \<open>None\<close> is the nil map,
  \<open>Some al\<close> a map that was made, and the order of \<open>al\<close> is the order in which one
  \<open>range\<close> loop happens to visit the entries. Go leaves that order open, so every
  theorem below is stated for all lists, hence for every order. The values of \<open>Apps\<close>
  and \<open>Namespaces\<close> are pointers in the source; the model gives each key its own
  object (no two keys share a pointee, and no pointee is nil), which is what
  deserialisation of a document with non-null entries produces.
\<close>

type_synonym ('k, 'v) gomap = "('k \<times> 'v) list option"

definition entries :: "('k, 'v) gomap \<Rightarrow> ('k \<times> 'v) list" where
  "entries m = (case m of None \<Rightarrow> [] | Some al \<Rightarrow> al)"

definition len :: "('k, 'v) gomap \<Rightarrow> nat" where
  "len m = length (entries m)"

text \<open>The two-result lookup \<open>v, ok := m[k]\<close>: the zero value and \<open>false\<close> for a missing key.\<close>

definition lookup_bool :: "(string \<times> bool) list \<Rightarrow> string \<Rightarrow> bool \<times> bool" where
  "lookup_bool al k = (case map_of al k of None \<Rightarrow> (False, False) | Some v \<Rightarrow> (v, True))"

definition has_key :: "('k, 'v) gomap \<Rightarrow> 'k \<Rightarrow> bool" where
  "has_key m k = (map_of (entries m) k \<noteq> None)"

text \<open>\<open>strings.HasPrefix(s, prefix)\<close>.\<close>

definition HasPrefix :: "string \<Rightarrow> string \<Rightarrow> bool" where
  "HasPrefix s p = (take (length p) s = p)"

record config =
  KubeContext :: string
  Username :: string
  Password :: string
  ClusterURI :: string
  ServiceAccount :: string
  StorageBackend :: string
  SlackWebhook :: string
  ReverseDelete :: bool
  BearerToken :: bool
  BearerTokenPath :: string
  EyamlEnabled :: bool
  EyamlPrivateKeyPath :: string
  EyamlPublicKeyPath :: string
  GlobalHooks :: "(string, string) gomap"
  GlobalMaxHistory :: int

text \<open>The zero value \<open>config{}\<close>.\<close>

definition config_zero :: config where
  "config_zero = \<lparr> KubeContext = [], Username = [], Password = [], ClusterURI = [],
     ServiceAccount = [], StorageBackend = [], SlackWebhook = [], ReverseDelete = False,
     BearerToken = False, BearerTokenPath = [], EyamlEnabled = False,
     EyamlPrivateKeyPath = [], EyamlPublicKeyPath = [], GlobalHooks = None,
     GlobalMaxHistory = 0 \<rparr>"

text \<open>
  Modelled from the spec: the \<open>release\<close> struct and its methods are declared in a file
  that is not part of the sources at hand. The fields are the ones \<open>state.go\<close> reads
  (\<open>Name\<close>, \<open>Namespace\<close>, \<open>Group\<close>, \<open>Chart\<close>, \<open>Version\<close>) together with the ones the
  spec lists: the per-release hook and history overrides and the enabled/disabled flag.
\<close>

record release =
  Name :: string
  Namespace :: string
  Group :: string
  Chart :: string
  Version :: string
  Hooks :: "(string, string) gomap"
  MaxHistory :: int
  disabled :: bool

text \<open>
  Modelled from the spec: the \<open>namespace\<close> struct is declared elsewhere; the spec gives
  it an enabled/disabled flag and the method \<open>Disable\<close>.
\<close>

record namespace =
  ns_disabled :: bool

record state =
  Metadata :: "(string, string) gomap"
  Certificates :: "(string, string) gomap"
  Settings :: config
  Context :: string
  Namespaces :: "(string, namespace) gomap"
  HelmRepos :: "(string, string) gomap"
  PreconfiguredHelmRepos :: "string list"
  Apps :: "(string, release) gomap"
  AppsTemplates :: "(string, release) gomap"
  TargetMap :: "(string, bool) gomap"

text \<open>
  Go's error values: \<open>errors.New(msg)\<close>, and \<open>fmt.Errorf(format, err)\<close> kept symbolic
  as the format string with the error it wraps, if any.
\<close>

datatype error = New string | Errorf string "error option"

text \<open>
  What a call of \<open>validate\<close> ends in: it returns \<open>nil\<close>, it returns an error, or it
  ends the process through \<open>os.Exit(code)\<close>.
\<close>

datatype outcome = Success | Failure error | Exit int

text \<open>
  Everything \<open>state.go\<close> calls but does not define: the standard library's
  \<open>url.ParseRequestURI\<close> and \<open>os.Stat\<close> (only whether they return an error is used),
  the package-level helpers \<open>getKubeContext\<close>, \<open>validateHooks\<close>, \<open>validateChart\<close>,
  the release method \<open>validate\<close>, the flag \<open>flags.nsOverride\<close> and the constants
  \<open>defaultContextName\<close> and \<open>resourcePool\<close>. They are parameters of the model.
  \<open>validateChart\<close> is given by the string it sends on the result channel, \<open>''''\<close> on
  success, as the spec describes the probe.
\<close>

type_synonym dupTracker = "(string \<times> (string \<times> bool) list) list"

record world =
  ParseRequestURI_ok :: "string \<Rightarrow> bool"
  Stat_ok :: "string \<Rightarrow> bool"
  getKubeContext :: bool
  validateHooks :: "(string, string) gomap \<Rightarrow> bool \<times> string"
  nsOverride :: string
  release_validate :: "string \<Rightarrow> dupTracker \<Rightarrow> state \<Rightarrow> release \<Rightarrow> error option \<times> dupTracker"
  validateChart :: "string \<Rightarrow> string \<Rightarrow> string \<Rightarrow> string"
  defaultContextName :: string
  resourcePool :: nat

section \<open>\<open>isValidCert\<close>\<close>

definition isValidCert :: "world \<Rightarrow> string \<Rightarrow> bool \<times> string" where
  "isValidCert w value =
     (let err1 = \<not> ParseRequestURI_ok w value;
          err2 = \<not> Stat_ok w value
      in if err2 \<and> (err1 \<or> (\<not> HasPrefix value ''s3://'' \<and> \<not> HasPrefix value ''gs://''
                               \<and> \<not> HasPrefix value ''az://''))
         then (False, [])
         else (True, value))"

section \<open>Methods of releases and namespaces\<close>

text \<open>
  Modelled from the spec: \<open>Disable\<close> and \<open>isConsideredToRun\<close> of a release are
  declared outside \<open>state.go\<close>. A release is considered to run when it is not
  disabled; \<open>Disable\<close> sets the flag and touches nothing else.
\<close>

definition Disable :: "release \<Rightarrow> release" where
  "Disable r = r\<lparr>disabled := True\<rparr>"

definition isConsideredToRun :: "release \<Rightarrow> bool" where
  "isConsideredToRun r = (\<not> disabled r)"

text \<open>Modelled from the spec: \<open>Disable\<close> of a namespace sets its flag.\<close>

definition ns_Disable :: "namespace \<Rightarrow> namespace" where
  "ns_Disable n = n\<lparr>ns_disabled := True\<rparr>"

text \<open>
  Modelled from the spec: \<open>inheritHooks\<close> and \<open>inheritMaxHistory\<close> are declared
  outside \<open>state.go\<close>. Each fills the release's field from the global setting only if
  the release's own field is unset (no hooks, history limit zero); a value the release
  sets itself wins.
\<close>

definition inheritHooks :: "state \<Rightarrow> release \<Rightarrow> release" where
  "inheritHooks s r =
     (if len (Hooks r) = 0 then r\<lparr>Hooks := GlobalHooks (Settings s)\<rparr> else r)"

definition inheritMaxHistory :: "state \<Rightarrow> release \<Rightarrow> release" where
  "inheritMaxHistory s r =
     (if MaxHistory r = 0 then r\<lparr>MaxHistory := GlobalMaxHistory (Settings s)\<rparr> else r)"

section \<open>\<open>setDefaults\<close>\<close>

text \<open>
  The process environment that \<open>os.Setenv\<close> writes is passed in and returned next to
  the document.
\<close>

type_synonym environ = "(string \<times> string) list"

definition setDefaults :: "world \<Rightarrow> environ \<Rightarrow> state \<Rightarrow> environ \<times> state" where
  "setDefaults w env s =
     (let (env1, s1) =
            (if StorageBackend (Settings s) \<noteq> ''''
             then (AList.update ''HELM_DRIVER'' (StorageBackend (Settings s)) env, s)
             else (env, s\<lparr>Settings := (Settings s)\<lparr>StorageBackend := ''secret''\<rparr>\<rparr>));
          s2 = (if Context s1 = '''' then s1\<lparr>Context := defaultContextName w\<rparr> else s1);
          s3 = s2\<lparr>Apps := map_option
                  (map (\<lambda>(name, r). (name,
                     inheritMaxHistory s2 (inheritHooks s2
                       (if Name r = '''' then r\<lparr>Name := name\<rparr> else r)))))
                  (Apps s2)\<rparr>
      in (env1, s3))"

section \<open>\<open>validate\<close>\<close>

text \<open>The settings stanza; \<open>None\<close> means that the function goes on.\<close>

definition validate_settings :: "world \<Rightarrow> state \<Rightarrow> error option" where
  "validate_settings w s =
     (let st = Settings s in
      if (st = config_zero \<or> KubeContext st = '''') \<and> \<not> getKubeContext w
      then Some (New (''settings validation failed -- you have not defined a '' @
             ''kubeContext to use. Either define it in the desired state file or pass a kubeconfig with --kubeconfig to use an existing context''))
      else if ClusterURI st \<noteq> '''' then
        (if \<not> ParseRequestURI_ok w (ClusterURI st)
         then Some (New ''settings validation failed -- clusterURI must have a valid URL set in an env variable or passed directly. Either the env var is missing/empty or the URL is invalid'')
         else if KubeContext st = ''''
         then Some (New ''settings validation failed -- KubeContext needs to be provided in the settings stanza'')
         else if \<not> BearerToken st \<and> Username st = ''''
         then Some (New ''settings validation failed -- username needs to be provided in the settings stanza'')
         else if \<not> BearerToken st \<and> Password st = ''''
         then Some (New ''settings validation failed -- password needs to be provided (directly or from env var) in the settings stanza'')
         else if BearerToken st \<and> BearerTokenPath st \<noteq> '''' \<and> \<not> Stat_ok w (BearerTokenPath st)
         then Some (New (''settings validation failed -- bearer token path '' @ BearerTokenPath st @
                '' is not found. The path has to be relative to the desired state file''))
         else None)
      else if BearerToken st \<and> ClusterURI st = ''''
      then Some (New ''settings validation failed -- bearer token is enabled but no cluster URI provided'')
      else None)"

definition validate_globalHooks :: "world \<Rightarrow> state \<Rightarrow> error option" where
  "validate_globalHooks w s =
     (if len (GlobalHooks (Settings s)) \<noteq> 0
      then (case validateHooks w (GlobalHooks (Settings s)) of
              (ok, errorMsg) \<Rightarrow> if \<not> ok then Some (Errorf errorMsg None) else None)
      else None)"

definition validate_slackWebhook :: "world \<Rightarrow> state \<Rightarrow> error option" where
  "validate_slackWebhook w s =
     (if SlackWebhook (Settings s) \<noteq> '''' \<and> \<not> ParseRequestURI_ok w (SlackWebhook (Settings s))
      then Some (New ''settings validation failed -- slackWebhook must be a valid URL'')
      else None)"

text \<open>
  The loop over the certificates: it visits the entries \<open>todo\<close> and rewrites the map
  \<open>m\<close> as it goes, stopping at the first value that \<open>isValidCert\<close> rejects.
\<close>

fun certificates_loop ::
  "world \<Rightarrow> (string \<times> string) list \<Rightarrow> (string \<times> string) list \<Rightarrow> error option \<times> (string \<times> string) list"
where
  "certificates_loop w [] m = (None, m)"
| "certificates_loop w ((key, value) # todo) m =
     (case isValidCert w value of
        (r, path) \<Rightarrow>
          if \<not> r
          then (Some (New (''certifications validation failed -- [ '' @ key @
                  '' ] must be a valid S3, GCS, AZ bucket/container URL or a valid relative file path'')), m)
          else certificates_loop w todo (AList.update key path m))"

definition validate_certificates :: "world \<Rightarrow> state \<Rightarrow> error option \<times> state" where
  "validate_certificates w s =
     (if Certificates s \<noteq> None \<and> len (Certificates s) \<noteq> 0 then
        (case certificates_loop w (entries (Certificates s)) (entries (Certificates s)) of
           (Some e, m) \<Rightarrow> (Some e, s\<lparr>Certificates := Some m\<rparr>)
         | (None, m) \<Rightarrow>
             (let s1 = s\<lparr>Certificates := Some m\<rparr>;
                  caCrt = has_key (Certificates s1) ''caCrt'';
                  caKey = has_key (Certificates s1) ''caKey''
              in if ClusterURI (Settings s1) \<noteq> '''' \<and> \<not> BearerToken (Settings s1) then
                   (if \<not> caCrt \<or> \<not> caKey
                    then (Some (New (''certificates validation failed -- connection to cluster is required '' @
                            ''but no cert/key was given. Please add [caCrt] and [caKey] under Certifications. You might also need to provide [clientCrt]'')), s1)
                    else (None, s1))
                 else if ClusterURI (Settings s1) \<noteq> '''' \<and> BearerToken (Settings s1) then
                   (if \<not> caCrt
                    then (Some (New (''certificates validation failed -- cluster connection with bearer token is enabled but '' @
                            ''[caCrt] is missing. Please provide [caCrt] in the Certifications stanza'')), s1)
                    else (None, s1))
                 else (None, s1)))
      else
        (if ClusterURI (Settings s) \<noteq> ''''
         then (Some (New ''certificates validation failed -- kube context setup is required but no certificates stanza provided''), s)
         else (None, s)))"

definition validate_eyaml :: "state \<Rightarrow> error option" where
  "validate_eyaml s =
     (if (EyamlPrivateKeyPath (Settings s) \<noteq> '''' \<and> EyamlPublicKeyPath (Settings s) = '''')
         \<or> (EyamlPrivateKeyPath (Settings s) = '''' \<and> EyamlPublicKeyPath (Settings s) \<noteq> '''')
      then Some (New ''both EyamlPrivateKeyPath and EyamlPublicKeyPath are required'')
      else None)"

definition validate_namespaces :: "world \<Rightarrow> state \<Rightarrow> error option" where
  "validate_namespaces w s =
     (if nsOverride w = '''' then
        (if Namespaces s = None \<or> len (Namespaces s) = 0
         then Some (New ''namespaces validation failed -- at least one namespace is required'')
         else None)
      else None)"

fun repos_loop :: "world \<Rightarrow> (string \<times> string) list \<Rightarrow> error option" where
  "repos_loop w [] = None"
| "repos_loop w ((k, v) # todo) =
     (if \<not> ParseRequestURI_ok w v
      then Some (New (''repos validation failed -- repo ['' @ k @ '' ] '' @ ''must have a valid URL''))
      else repos_loop w todo)"

fun apps_loop :: "world \<Rightarrow> state \<Rightarrow> (string \<times> release) list \<Rightarrow> dupTracker \<Rightarrow> error option" where
  "apps_loop w s [] names = None"
| "apps_loop w s ((appLabel, r) # todo) names =
     (case release_validate w appLabel names s r of
        (Some err, names') \<Rightarrow>
          Some (Errorf (''apps validation failed -- for app ['' @ appLabel @ '' ]. %w'') (Some err))
      | (None, names') \<Rightarrow> apps_loop w s todo names')"

definition validate :: "world \<Rightarrow> state \<Rightarrow> outcome \<times> state" where
  "validate w s =
     (if Apps s = None then (Exit 0, s)
      else case validate_settings w s of Some e \<Rightarrow> (Failure e, s) | None \<Rightarrow>
          (case validate_globalHooks w s of Some e \<Rightarrow> (Failure e, s) | None \<Rightarrow>
          (case validate_slackWebhook w s of Some e \<Rightarrow> (Failure e, s) | None \<Rightarrow>
          (case validate_certificates w s of (Some e, s1) \<Rightarrow> (Failure e, s1) | (None, s1) \<Rightarrow>
          (case validate_eyaml s1 of Some e \<Rightarrow> (Failure e, s1) | None \<Rightarrow>
          (case validate_namespaces w s1 of Some e \<Rightarrow> (Failure e, s1) | None \<Rightarrow>
          (case repos_loop w (entries (HelmRepos s1)) of Some e \<Rightarrow> (Failure e, s1) | None \<Rightarrow>
          (case apps_loop w s1 (entries (Apps s1)) [] of Some e \<Rightarrow> (Failure e, s1)
           | None \<Rightarrow> (Success, s1)))))))))"

section \<open>\<open>validateReleaseCharts\<close>\<close>

type_synonym charts = "(string \<times> (string \<times> string list) list) list"

text \<open>The first loop: the releases considered to run, grouped by chart and version.\<close>

fun group_charts :: "(string \<times> release) list \<Rightarrow> charts \<Rightarrow> charts" where
  "group_charts [] charts = charts"
| "group_charts ((app, r) # todo) charts =
     (if \<not> isConsideredToRun r then group_charts todo charts
      else
        (let versions = (case map_of charts (Chart r) of None \<Rightarrow> [] | Some vs \<Rightarrow> vs);
             apps = (case map_of versions (Version r) of None \<Rightarrow> [] | Some ns \<Rightarrow> ns)
         in group_charts todo
              (AList.update (Chart r) (AList.update (Version r) (apps @ [app]) versions) charts)))"

text \<open>\<open>strings.Join(elems, sep)\<close>.\<close>

fun Join :: "string list \<Rightarrow> string \<Rightarrow> string" where
  "Join [] sep = []"
| "Join [x] sep = x"
| "Join (x # y # ys) sep = x @ sep @ Join (y # ys) sep"

text \<open>
  What a run of \<open>validateReleaseCharts\<close> leaves behind: the value it returns, the calls
  of \<open>validateChart\<close> made by the goroutines it started (the arguments of each call, in
  the order in which the loop started them), the strings the last loop received from
  the channel \<open>c\<close>, and the messages it gave to \<open>log.Error\<close>.
\<close>

record charts_run =
  returned :: "error option"
  probed :: "(string \<times> string \<times> string) list"
  received :: "string list"
  logged :: "string list"

text \<open>
  The second loop, over the charts and over the versions of each chart. Every turn
  starts a goroutine that calls \<open>validateChart\<close>; the goroutine is modelled by the
  call it makes and by the string this call sends on the channel \<open>c\<close>. The strings
  are kept in the order of the calls; the program may receive them in any order.
\<close>

fun versions_loop ::
  "world \<Rightarrow> string \<Rightarrow> (string \<times> string list) list
     \<Rightarrow> (string \<times> string \<times> string) list \<times> string list
     \<Rightarrow> (string \<times> string \<times> string) list \<times> string list"
where
  "versions_loop w chart [] (calls, c) = (calls, c)"
| "versions_loop w chart ((version, apps) # todo) (calls, c) =
     (let concattedApps = Join apps '', ''
      in versions_loop w chart todo
           (calls @ [(concattedApps, chart, version)],
            c @ [validateChart w concattedApps chart version]))"

fun charts_loop ::
  "world \<Rightarrow> charts \<Rightarrow> (string \<times> string \<times> string) list \<times> string list
     \<Rightarrow> (string \<times> string \<times> string) list \<times> string list"
where
  "charts_loop w [] st = st"
| "charts_loop w ((chart, versions) # todo) st =
     charts_loop w todo (versions_loop w chart versions st)"

text \<open>
  The last loop, \<open>for err := range c\<close>: it takes every string off the channel, and a
  non-empty one sets \<open>fail\<close> and is logged. The loop has no exit but the end of the
  channel.
\<close>

fun drain_loop ::
  "string list \<Rightarrow> bool \<times> string list \<times> string list \<Rightarrow> bool \<times> string list \<times> string list"
where
  "drain_loop [] (fail, seen, logs) = (fail, seen, logs)"
| "drain_loop (err # c) (fail, seen, logs) =
     (if err \<noteq> '''' then drain_loop c (True, seen @ [err], logs @ [err])
      else drain_loop c (fail, seen @ [err], logs))"

text \<open>
  The channel \<open>c\<close> has room for \<open>len(s.Apps)\<close> strings, so no send waits. The
  semaphore \<open>sem\<close> has \<open>resourcePool\<close> slots; with no slot at all the first
  \<open>sem <- struct{}{}\<close> waits for ever, no goroutine is started and the function does
  not return: the result is \<open>None\<close>. Otherwise \<open>wg.Wait()\<close> returns once every
  goroutine is done, the channel is closed and the last loop reads it to its end.
\<close>

definition validateReleaseCharts :: "world \<Rightarrow> state \<Rightarrow> charts_run option" where
  "validateReleaseCharts w s =
     (let charts = group_charts (entries (Apps s)) []
      in if resourcePool w = 0 \<and> (\<exists>(chart, versions) \<in> set charts. versions \<noteq> []) then None
         else
           (case charts_loop w charts ([], []) of
              (calls, c) \<Rightarrow>
                (case drain_loop c (False, [], []) of
                   (fail, seen, logs) \<Rightarrow>
                     Some \<lparr> returned = (if fail then Some (New ''chart validation failed'') else None),
                            probed = calls, received = seen, logged = logs \<rparr>)))"

section \<open>\<open>makeTargetMap\<close> and \<open>disableUntargettedApps\<close>\<close>

definition makeTargetMap :: "state \<Rightarrow> string list \<Rightarrow> string list \<Rightarrow> state" where
  "makeTargetMap s groups targets =
     (let tm0 = (case TargetMap s of None \<Rightarrow> [] | Some m \<Rightarrow> m);
          groupMap = fold (\<lambda>v m. AList.update v True m) groups [];
          tm1 = fold (\<lambda>(appName, data) tm.
                   (case lookup_bool groupMap (Group data) of
                      (use, ok) \<Rightarrow> if ok \<and> use then AList.update appName True tm else tm))
                 (entries (Apps s)) tm0;
          tm2 = fold (\<lambda>v tm. AList.update v True tm) targets tm1
      in s\<lparr>TargetMap := Some tm2\<rparr>)"

text \<open>
  The loop over the releases returns the releases after the calls of \<open>Disable\<close> and
  the local map \<open>namespaces\<close>.
\<close>

fun disable_apps_loop ::
  "(string \<times> bool) list \<Rightarrow> (string \<times> release) list \<Rightarrow> (string \<times> bool) list
     \<Rightarrow> (string \<times> release) list \<times> (string \<times> bool) list"
where
  "disable_apps_loop tm [] namespaces = ([], namespaces)"
| "disable_apps_loop tm ((appName, app) # todo) namespaces =
     (case lookup_bool tm appName of
        (use, ok) \<Rightarrow>
          if \<not> use \<or> \<not> ok
          then (case disable_apps_loop tm todo namespaces of
                  (apps', namespaces') \<Rightarrow> ((appName, Disable app) # apps', namespaces'))
          else (case disable_apps_loop tm todo (AList.update (Namespace app) True namespaces) of
                  (apps', namespaces') \<Rightarrow> ((appName, app) # apps', namespaces')))"

fun disable_namespaces_loop ::
  "(string \<times> bool) list \<Rightarrow> (string \<times> namespace) list \<Rightarrow> (string \<times> namespace) list"
where
  "disable_namespaces_loop namespaces [] = []"
| "disable_namespaces_loop namespaces ((nsName, ns) # todo) =
     (case lookup_bool namespaces nsName of
        (use, ok) \<Rightarrow>
          (nsName, if \<not> use \<or> \<not> ok then ns_Disable ns else ns)
            # disable_namespaces_loop namespaces todo)"

definition disableUntargettedApps :: "state \<Rightarrow> state" where
  "disableUntargettedApps s =
     (if len (TargetMap s) = 0 then s
      else
        (case disable_apps_loop (entries (TargetMap s)) (entries (Apps s)) [] of
           (apps', namespaces) \<Rightarrow>
             s\<lparr>Apps := map_option (\<lambda>_. apps') (Apps s),
               Namespaces := map_option (disable_namespaces_loop namespaces) (Namespaces s)\<rparr>))"

section \<open>Example documents\<close>

text \<open>
  A world for the examples. \<open>url.ParseRequestURI\<close> accepts the four strings listed
  (three with a scheme and a host, one absolute path), two files exist, no kube context
  is found outside the document, the hook and release validators accept everything, and a
  chart probe complains when the version is empty.
\<close>

definition example_world :: world where
  "example_world = \<lparr>
     ParseRequestURI_ok = (\<lambda>v. v \<in> set [''https://example.com/ca.crt'', ''/nonexistent/path'',
        ''s3://bucket/key'', ''https://k8s.example.com:6443'']),
     Stat_ok = (\<lambda>p. p \<in> set [''certs/ca.crt'', ''certs/ca.key'']),
     getKubeContext = False,
     validateHooks = (\<lambda>hooks. (True, [])),
     nsOverride = [],
     release_validate = (\<lambda>label names s r. (None, names)),
     validateChart = (\<lambda>apps chart version. if version = [] then ''no version for '' @ apps else []),
     defaultContextName = ''default'',
     resourcePool = 10 \<rparr>"

text \<open>The zero values \<open>state{}\<close> and \<open>release{}\<close>.\<close>

definition state_zero :: state where
  "state_zero = \<lparr> Metadata = None, Certificates = None, Settings = config_zero, Context = [],
     Namespaces = None, HelmRepos = None, PreconfiguredHelmRepos = [], Apps = None,
     AppsTemplates = None, TargetMap = None \<rparr>"

definition release_zero :: release where
  "release_zero = \<lparr> Name = [], Namespace = [], Group = [], Chart = [], Version = [],
     Hooks = None, MaxHistory = 0, disabled = False \<rparr>"

text \<open>
  Three releases \<open>app1\<close>, \<open>app2\<close>, \<open>app3\<close> with the groups \<open>g1\<close>, \<open>g2\<close>, \<open>g3\<close>,
  each in a namespace of its own; the first and the third share a chart and a version.
\<close>

definition example_state :: state where
  "example_state = state_zero \<lparr>
     Namespaces := Some [(''ns1'', \<lparr>ns_disabled = False\<rparr>), (''ns2'', \<lparr>ns_disabled = False\<rparr>),
                         (''ns3'', \<lparr>ns_disabled = False\<rparr>)],
     Apps := Some [
       (''app1'', release_zero\<lparr>Namespace := ''ns1'', Group := ''g1'', Chart := ''repo/a'', Version := ''1.0''\<rparr>),
       (''app2'', release_zero\<lparr>Namespace := ''ns2'', Group := ''g2'', Chart := ''repo/b'', Version := ''2.0''\<rparr>),
       (''app3'', release_zero\<lparr>Namespace := ''ns3'', Group := ''g3'', Chart := ''repo/a'', Version := ''1.0''\<rparr>)] \<rparr>"

text \<open>A document for a remote cluster with basic auth and no certificates.\<close>

definition example_remote :: state where
  "example_remote = state_zero \<lparr>
     Settings := config_zero \<lparr>KubeContext := ''prod'', Username := ''admin'', Password := ''secret'',
                              ClusterURI := ''https://k8s.example.com:6443''\<rparr> \<rparr>"

definition example_bearer :: state where
  "example_bearer = state_zero \<lparr>
     Settings := config_zero \<lparr>KubeContext := ''prod'', BearerToken := True\<rparr>,
     Apps := Some [(''app1'', release_zero)] \<rparr>"

definition example_remote_apps :: state where
  "example_remote_apps = example_remote \<lparr> Apps := Some [(''app1'', release_zero)] \<rparr>"

definition example_remote_bearer :: state where
  "example_remote_bearer = example_remote_apps \<lparr>
     Settings := (Settings example_remote) \<lparr>BearerToken := True\<rparr>,
     Certificates := Some [(''caKey'', ''certs/ca.key'')] \<rparr>"

text \<open>The example with two releases targeted by name, one of them switched off, and a name that matches nothing.\<close>

definition example_targeted :: state where
  "example_targeted = example_state \<lparr>
     TargetMap := Some [(''app1'', True), (''app2'', False), (''ghost'', True)] \<rparr>"

text \<open>The three releases under global hooks and a global history limit.\<close>

definition example_inherit :: state where
  "example_inherit = example_state \<lparr>
     Settings := config_zero \<lparr>GlobalMaxHistory := 5,
                              GlobalHooks := Some [(''preInstall'', ''job.yaml'')]\<rparr> \<rparr>"

text \<open>
  Five releases for the chart probes: \<open>a\<close> and \<open>c\<close> have no version, \<open>b\<close> and \<open>e\<close>
  share a chart and a version, and \<open>d\<close> is disabled.
\<close>

definition example_charts :: state where
  "example_charts = state_zero \<lparr>
     Apps := Some [
       (''a'', release_zero\<lparr>Chart := ''repo/x''\<rparr>),
       (''b'', release_zero\<lparr>Chart := ''repo/y'', Version := ''1.0''\<rparr>),
       (''c'', release_zero\<lparr>Chart := ''repo/z''\<rparr>),
       (''d'', release_zero\<lparr>Chart := ''repo/q'', disabled := True\<rparr>),
       (''e'', release_zero\<lparr>Chart := ''repo/y'', Version := ''1.0''\<rparr>)] \<rparr>"

text \<open>The calls the second loop makes for a given map of charts, as one list.\<close>

definition launched :: "charts \<Rightarrow> (string \<times> string \<times> string) list" where
  "launched charts =
     concat (map (\<lambda>(chart, versions).
                map (\<lambda>(version, apps). (Join apps '', '', chart, version)) versions) charts)"

text \<open>
  The invariant of the grouping loop (chart names are distinct keys, and so are the
  versions under each chart) and the list of chart and version pairs the map holds.
\<close>

definition charts_inv :: "charts \<Rightarrow> bool" where
  "charts_inv charts =
     (distinct (map fst charts) \<and> (\<forall>(c, vs) \<in> set charts. distinct (map fst vs)))"

definition chart_versions :: "charts \<Rightarrow> (string \<times> string) list" where
  "chart_versions charts = concat (map (\<lambda>(c, vs). map (\<lambda>(v, apps). (c, v)) vs) charts)"

section \<open>Certificate locations\<close>

text \<open>
  C1, as amended. \<open>isValidCert\<close> reports a value valid if and only if it names an
  existing local path, or it parses as a URI and starts with one of the three bucket
  prefixes; a valid value is returned unchanged and an invalid one gives the empty
  string. Parsing as a URI is not enough by itself, and a bucket prefix is not enough
  when the value does not parse.
\<close>

theorem isValidCert_valid_iff:
  "(fst (isValidCert w value) \<longleftrightarrow>
      Stat_ok w value \<or>
      (ParseRequestURI_ok w value \<and>
        (HasPrefix value ''s3://'' \<or> HasPrefix value ''gs://'' \<or> HasPrefix value ''az://'')))
   \<and> snd (isValidCert w value) = (if fst (isValidCert w value) then value else [])"
  by (simp add: isValidCert_def Let_def)

theorem isValidCert_valid_iff_witness:
  "fst (isValidCert example_world ''s3://bucket/key'')
   \<and> \<not> Stat_ok example_world ''s3://bucket/key''
   \<and> snd (isValidCert example_world ''s3://bucket/key'') = ''s3://bucket/key''
   \<and> \<not> fst (isValidCert example_world ''/nonexistent/path'')"
  using isValidCert_valid_iff [of example_world "''s3://bucket/key''"]
        isValidCert_valid_iff [of example_world "''/nonexistent/path''"]
  by (simp add: example_world_def HasPrefix_def)

text \<open>
  C1, as stated, fails: \<open>https://example.com/ca.crt\<close> parses as a URI, is no local
  file and has no bucket prefix, and \<open>isValidCert\<close> rejects it.
\<close>

theorem isValidCert_uri_counterexample:
  "ParseRequestURI_ok example_world ''https://example.com/ca.crt''
   \<and> \<not> fst (isValidCert example_world ''https://example.com/ca.crt'')"
  by (simp add: isValidCert_def example_world_def HasPrefix_def)

section \<open>Target resolution\<close>

text \<open>
  C8. With an empty \<open>TargetMap\<close> (nil or without entries) \<open>disableUntargettedApps\<close>
  returns the document as it was: no release, no namespace and no other field changes.
\<close>

theorem disableUntargettedApps_empty_noop:
  "len (TargetMap s) = 0 \<Longrightarrow> disableUntargettedApps s = s"
  by (simp add: disableUntargettedApps_def)

theorem disableUntargettedApps_empty_noop_witness:
  "len (TargetMap example_state) = 0 \<and> disableUntargettedApps example_state = example_state"
  using disableUntargettedApps_empty_noop [of example_state]
  by (simp add: example_state_def state_zero_def len_def entries_def)

section \<open>The validation pipeline\<close>

lemma validate_stage_settings:
  "Apps s \<noteq> None \<Longrightarrow> validate_settings w s = Some e \<Longrightarrow> validate w s = (Failure e, s)"
  by (simp add: validate_def)

text \<open>
  C9. A document that gets past the earlier stages (its \<open>Apps\<close> map is not nil, and a
  kube context is defined in the settings or found outside) and has bearer-token auth
  enabled with no cluster URI is rejected by \<open>validate\<close>, with the error of the
  settings stage for exactly this case.
\<close>

theorem validate_bearer_without_uri:
  assumes "Apps s \<noteq> None"
    and "\<not> ((Settings s = config_zero \<or> KubeContext (Settings s) = '''') \<and> \<not> getKubeContext w)"
    and "BearerToken (Settings s)"
    and "ClusterURI (Settings s) = ''''"
  shows "fst (validate w s) =
           Failure (New ''settings validation failed -- bearer token is enabled but no cluster URI provided'')"
proof -
  have "validate_settings w s =
          Some (New ''settings validation failed -- bearer token is enabled but no cluster URI provided'')"
    using assms(2-4) unfolding validate_settings_def Let_def by (simp only: if_False if_True simp_thms) 
  with assms(1) show ?thesis by (simp add: validate_stage_settings)
qed

theorem validate_bearer_without_uri_witness:
  "Apps example_bearer \<noteq> None
   \<and> \<not> ((Settings example_bearer = config_zero \<or> KubeContext (Settings example_bearer) = '''')
          \<and> \<not> getKubeContext example_world)
   \<and> BearerToken (Settings example_bearer)
   \<and> ClusterURI (Settings example_bearer) = ''''
   \<and> fst (validate example_world example_bearer) =
       Failure (New ''settings validation failed -- bearer token is enabled but no cluster URI provided'')"
proof -
  have a: "Apps example_bearer \<noteq> None"
    by (simp add: example_bearer_def state_zero_def)
  have b: "\<not> ((Settings example_bearer = config_zero \<or> KubeContext (Settings example_bearer) = '''')
          \<and> \<not> getKubeContext example_world)"
    by (simp add: example_bearer_def state_zero_def config_zero_def)
  have c: "BearerToken (Settings example_bearer)"
    by (simp add: example_bearer_def state_zero_def config_zero_def)
  have d: "ClusterURI (Settings example_bearer) = ''''"
    by (simp add: example_bearer_def state_zero_def config_zero_def)
  from validate_bearer_without_uri [OF a b c d] a b c d show ?thesis by blast
qed




lemma certificates_loop_keys:
  "certificates_loop w todo m = (r, m') \<Longrightarrow> fst ` set m' \<subseteq> fst ` set m \<union> fst ` set todo"
proof (induction todo arbitrary: m)
  case Nil
  then show ?case by simp
next
  case (Cons kv todo)
  obtain key val where kv: "kv = (key, val)" by (cases kv)
  show ?case
  proof (cases "fst (isValidCert w val)")
    case True
    with Cons.prems kv have "certificates_loop w todo (AList.update key (snd (isValidCert w val)) m) = (r, m')"
      by (simp split: prod.splits)
    from Cons.IH [OF this] show ?thesis
      by (auto simp: kv AList.dom_update)
  next
    case False
    with Cons.prems kv show ?thesis by (auto split: prod.splits)
  qed
qed

lemma validate_certificates_missing:
  assumes "ClusterURI (Settings s) \<noteq> ''''"
    and "(\<not> BearerToken (Settings s) \<and> \<not> (has_key (Certificates s) ''caCrt'' \<and> has_key (Certificates s) ''caKey''))
         \<or> (BearerToken (Settings s) \<and> \<not> has_key (Certificates s) ''caCrt'')
         \<or> len (Certificates s) = 0"
  shows "\<exists>e. fst (validate_certificates w s) = Some e"
proof (cases "Certificates s \<noteq> None \<and> len (Certificates s) \<noteq> 0")
  case False
  with assms(1) show ?thesis by (auto simp: validate_certificates_def)
next
  case True
  obtain r m where loop: "certificates_loop w (entries (Certificates s)) (entries (Certificates s)) = (r, m)"
    by (cases "certificates_loop w (entries (Certificates s)) (entries (Certificates s))")
  show ?thesis
  proof (cases r)
    case (Some e)
    with True loop show ?thesis by (simp add: validate_certificates_def)
  next
    case None
    from certificates_loop_keys [OF loop]
    have keys: "fst ` set m \<subseteq> fst ` set (entries (Certificates s))" by simp
    have sub: "\<And>k. has_key (Some m) k \<Longrightarrow> has_key (Certificates s) k"
    proof -
      fix k assume "has_key (Some m) k"
      then have "k \<in> fst ` set m"
        by (auto simp: has_key_def entries_def dest: map_of_SomeD intro: rev_image_eqI)
      with keys have "k \<in> fst ` set (entries (Certificates s))" by blast
      then show "has_key (Certificates s) k"
        by (simp add: has_key_def map_of_eq_None_iff)
    qed
    from assms(2) True have
      "(\<not> BearerToken (Settings s) \<and> \<not> (has_key (Some m) ''caCrt'' \<and> has_key (Some m) ''caKey''))
         \<or> (BearerToken (Settings s) \<and> \<not> has_key (Some m) ''caCrt'')"
      using sub by blast
    with True loop None assms(1) show ?thesis
      by (auto simp: validate_certificates_def Let_def)
  qed
qed

lemma validate_stage_certificates:
  assumes "Apps s \<noteq> None" and "fst (validate_certificates w s) = Some e"
  shows "\<exists>e'. fst (validate w s) = Failure e'"
  using assms by (cases "validate_certificates w s") (auto simp: validate_def split: option.splits)

text \<open>
  C7, as amended. For every document with a non-nil \<open>Apps\<close> map and a non-empty
  cluster URI, \<open>validate\<close> returns an error when bearer-token auth is off and
  \<open>caCrt\<close> or \<open>caKey\<close> is missing from the certificates, when bearer-token auth is on
  and \<open>caCrt\<close> is missing, and when no certificates are declared at all.
\<close>

theorem validate_certificates_required:
  assumes "Apps s \<noteq> None" and "ClusterURI (Settings s) \<noteq> ''''"
  shows "(\<not> BearerToken (Settings s) \<and>
            \<not> (has_key (Certificates s) ''caCrt'' \<and> has_key (Certificates s) ''caKey'')
            \<longrightarrow> (\<exists>e. fst (validate w s) = Failure e))
       \<and> (BearerToken (Settings s) \<and> \<not> has_key (Certificates s) ''caCrt''
            \<longrightarrow> (\<exists>e. fst (validate w s) = Failure e))
       \<and> (len (Certificates s) = 0 \<longrightarrow> (\<exists>e. fst (validate w s) = Failure e))"
  using validate_certificates_missing [OF assms(2), of w] validate_stage_certificates [OF assms(1), of w]
  by blast

text \<open>
  C7, as stated, fails: a document with a cluster URI, basic auth and no certificates
  whose \<open>Apps\<close> map is nil does not fail validation; \<open>validate\<close> ends the process
  with exit code 0 before it looks at the certificates.
\<close>

theorem validate_certificates_counterexample:
  "ClusterURI (Settings example_remote) \<noteq> ''''
   \<and> \<not> BearerToken (Settings example_remote)
   \<and> \<not> has_key (Certificates example_remote) ''caKey''
   \<and> len (Certificates example_remote) = 0
   \<and> fst (validate example_world example_remote) = Exit 0"
  by (simp add: example_remote_def state_zero_def config_zero_def has_key_def entries_def len_def
        validate_def)

theorem validate_certificates_required_witness:
  "Apps example_remote_apps \<noteq> None \<and> ClusterURI (Settings example_remote_apps) \<noteq> ''''
   \<and> \<not> BearerToken (Settings example_remote_apps)
   \<and> \<not> has_key (Certificates example_remote_apps) ''caKey''
   \<and> len (Certificates example_remote_apps) = 0
   \<and> (\<exists>e. fst (validate example_world example_remote_apps) = Failure e)
   \<and> Apps example_remote_bearer \<noteq> None \<and> ClusterURI (Settings example_remote_bearer) \<noteq> ''''
   \<and> BearerToken (Settings example_remote_bearer)
   \<and> \<not> has_key (Certificates example_remote_bearer) ''caCrt''
   \<and> (\<exists>e. fst (validate example_world example_remote_bearer) = Failure e)"
  using validate_certificates_required [of example_remote_apps example_world]
        validate_certificates_required [of example_remote_bearer example_world]
  by (simp add: example_remote_apps_def example_remote_bearer_def example_remote_def
        state_zero_def config_zero_def has_key_def entries_def len_def)

section \<open>Target map and cascading disablement\<close>

lemma lookup_bool_conv:
  "lookup_bool al k = (use, ok) \<Longrightarrow> (\<not> use \<or> \<not> ok) = (map_of al k \<noteq> Some True)"
  by (auto simp: lookup_bool_def split: option.splits)

lemma lookup_bool_conv2:
  "lookup_bool al k = (use, ok) \<Longrightarrow> (ok \<and> use) = (map_of al k = Some True)"
  by (auto simp: lookup_bool_def split: option.splits)

lemma map_of_fold_update_True:
  "map_of (fold (\<lambda>v m. AList.update v True m) vs m0) k =
     (if k \<in> set vs then Some True else map_of m0 k)"
  by (induction vs arbitrary: m0) (auto simp: AList.update_conv')

lemma set_update_subset: "set (AList.update k v al) \<subseteq> insert (k, v) (set al)"
  by (induction al) auto

lemma fold_update_True_values:
  "\<forall>(k, b) \<in> set m0. b \<Longrightarrow> \<forall>(k, b) \<in> set (fold (\<lambda>v m. AList.update v True m) vs m0). b"
proof (induction vs arbitrary: m0)
  case Nil
  then show ?case by simp
next
  case (Cons v vs)
  have "\<forall>(k, b) \<in> set (AList.update v True m0). b"
    using Cons.prems set_update_subset [of v True m0] by auto
  from Cons.IH [OF this] show ?case by simp
qed

lemma map_of_fold_groups:
  "map_of (fold (\<lambda>(appName, data) tm.
       (case lookup_bool groupMap (Group data) of
          (use, ok) \<Rightarrow> if ok \<and> use then AList.update appName True tm else tm)) apps tm0) k =
   (if \<exists>r. (k, r) \<in> set apps \<and> map_of groupMap (Group r) = Some True then Some True else map_of tm0 k)"
proof (induction apps arbitrary: tm0)
  case Nil
  then show ?case by simp
next
  case (Cons a apps)
  obtain appName data where a: "a = (appName, data)" by (cases a)
  obtain use ok where l: "lookup_bool groupMap (Group data) = (use, ok)"
    by (cases "lookup_bool groupMap (Group data)")
  show ?case
    using lookup_bool_conv2 [OF l] l
    by (auto simp: a Cons.IH AList.update_conv')
qed

lemma fold_groups_values:
  "\<forall>(k, b) \<in> set tm0. b \<Longrightarrow>
   \<forall>(k, b) \<in> set (fold (\<lambda>(appName, data) tm.
       (case lookup_bool groupMap (Group data) of
          (use, ok) \<Rightarrow> if ok \<and> use then AList.update appName True tm else tm)) apps tm0). b"
proof (induction apps arbitrary: tm0)
  case Nil
  then show ?case by simp
next
  case (Cons a apps)
  obtain appName data where a: "a = (appName, data)" by (cases a)
  obtain use ok where l: "lookup_bool groupMap (Group data) = (use, ok)"
    by (cases "lookup_bool groupMap (Group data)")
  have "\<forall>(k, b) \<in> set (if ok \<and> use then AList.update appName True tm0 else tm0). b"
    using Cons.prems set_update_subset [of appName True tm0] by auto
  from Cons.IH [OF this] show ?case by (simp add: a l)
qed

lemma entries_simps: "entries None = []" "entries (Some al) = al"
  by (simp_all add: entries_def)

lemma makeTargetMap_lookup:
  "map_of (entries (TargetMap (makeTargetMap s groups targets))) k =
     (if k \<in> set targets \<or> (\<exists>r. (k, r) \<in> set (entries (Apps s)) \<and> Group r \<in> set groups)
      then Some True else map_of (entries (TargetMap s)) k)"
proof -
  have tm0: "(case TargetMap s of None \<Rightarrow> [] | Some m \<Rightarrow> m) = entries (TargetMap s)"
    by (simp add: entries_def)
  have gm: "\<And>g. (map_of (fold (\<lambda>v m. AList.update v True m) groups []) g = Some True) = (g \<in> set groups)"
    by (simp add: map_of_fold_update_True)
  show ?thesis
    unfolding makeTargetMap_def Let_def tm0
    by (auto simp: entries_simps map_of_fold_update_True map_of_fold_groups gm)
qed

lemma makeTargetMap_frame:
  "makeTargetMap s groups targets = s\<lparr>TargetMap := TargetMap (makeTargetMap s groups targets)\<rparr>"
  by (simp add: makeTargetMap_def Let_def)

lemma makeTargetMap_values:
  assumes "\<forall>(k, b) \<in> set (entries (TargetMap s)). b"
  shows "\<forall>(k, b) \<in> set (entries (TargetMap (makeTargetMap s groups targets))). b"
proof -
  have "\<forall>(k, b) \<in> set (case TargetMap s of None \<Rightarrow> [] | Some m \<Rightarrow> m). b"
    using assms by (simp add: entries_def)
  from fold_update_True_values [OF fold_groups_values [OF this]]
  show ?thesis by (simp add: makeTargetMap_def Let_def entries_def)
qed

lemma makeTargetMap_nonempty:
  "targets \<noteq> [] \<Longrightarrow> len (TargetMap (makeTargetMap s groups targets)) \<noteq> 0"
proof -
  assume "targets \<noteq> []"
  then obtain v where "v \<in> set targets" by (cases targets) auto
  then have "map_of (entries (TargetMap (makeTargetMap s groups targets))) v = Some True"
    by (simp add: makeTargetMap_lookup)
  then have "entries (TargetMap (makeTargetMap s groups targets)) \<noteq> []" by auto
  then show ?thesis by (simp add: len_def)
qed

lemma disable_apps_loop_fst:
  "fst (disable_apps_loop tm apps nss) =
     map (\<lambda>(k, r). (k, if map_of tm k = Some True then r else Disable r)) apps"
proof (induction apps arbitrary: nss)
  case Nil
  then show ?case by simp
next
  case (Cons a apps)
  obtain appName app where a: "a = (appName, app)" by (cases a)
  obtain use ok where l: "lookup_bool tm appName = (use, ok)"
    by (cases "lookup_bool tm appName")
  show ?case
  proof (cases "map_of tm appName = Some True")
    case True
    with lookup_bool_conv [OF l] have u: "\<not> (\<not> use \<or> \<not> ok)" by simp
    have "fst (disable_apps_loop tm (a # apps) nss) =
            (appName, app) # fst (disable_apps_loop tm apps (AList.update (Namespace app) True nss))"
      using u by (simp add: a l split: prod.splits)
    then show ?thesis
      using True by (simp add: a Cons.IH)
  next
    case False
    with lookup_bool_conv [OF l] have u: "\<not> use \<or> \<not> ok" by simp
    have "fst (disable_apps_loop tm (a # apps) nss) =
            (appName, Disable app) # fst (disable_apps_loop tm apps nss)"
      using u by (simp add: a l split: prod.splits)
    then show ?thesis
      using False by (simp add: a Cons.IH)
  qed
qed

lemma disable_apps_loop_snd:
  "map_of (snd (disable_apps_loop tm apps nss)) n =
     (if \<exists>(k, r) \<in> set apps. map_of tm k = Some True \<and> Namespace r = n
      then Some True else map_of nss n)"
proof (induction apps arbitrary: nss)
  case Nil
  then show ?case by simp
next
  case (Cons a apps)
  obtain appName app where a: "a = (appName, app)" by (cases a)
  obtain use ok where l: "lookup_bool tm appName = (use, ok)"
    by (cases "lookup_bool tm appName")
  show ?case
  proof (cases "map_of tm appName = Some True")
    case True
    with lookup_bool_conv [OF l] have u: "\<not> (\<not> use \<or> \<not> ok)" by simp
    have "snd (disable_apps_loop tm (a # apps) nss) =
            snd (disable_apps_loop tm apps (AList.update (Namespace app) True nss))"
      using u by (simp add: a l split: prod.splits)
    then show ?thesis
      using True by (auto simp: a Cons.IH AList.update_conv')
  next
    case False
    with lookup_bool_conv [OF l] have u: "\<not> use \<or> \<not> ok" by simp
    have "snd (disable_apps_loop tm (a # apps) nss) = snd (disable_apps_loop tm apps nss)"
      using u by (simp add: a l split: prod.splits)
    then show ?thesis
      using False by (auto simp: a Cons.IH)
  qed
qed

lemma disable_namespaces_loop_map:
  "disable_namespaces_loop nss namespaces =
     map (\<lambda>(n, ns). (n, if map_of nss n = Some True then ns else ns_Disable ns)) namespaces"
proof (induction namespaces)
  case Nil
  then show ?case by simp
next
  case (Cons a namespaces)
  obtain nsName ns where a: "a = (nsName, ns)" by (cases a)
  obtain use ok where l: "lookup_bool nss nsName = (use, ok)"
    by (cases "lookup_bool nss nsName")
  show ?case
    using lookup_bool_conv [OF l] Cons.IH by (auto simp: a l)
qed

lemma disableUntargettedApps_eq:
  assumes "len (TargetMap s) \<noteq> 0"
  shows "disableUntargettedApps s = s\<lparr>
     Apps := map_option (map (\<lambda>(k, r).
         (k, if map_of (entries (TargetMap s)) k = Some True then r else Disable r))) (Apps s),
     Namespaces := map_option (map (\<lambda>(n, ns).
         (n, if \<exists>(k, r) \<in> set (entries (Apps s)).
                  map_of (entries (TargetMap s)) k = Some True \<and> Namespace r = n
             then ns else ns_Disable ns))) (Namespaces s)\<rparr>"
proof -
  obtain apps' nss where l: "disable_apps_loop (entries (TargetMap s)) (entries (Apps s)) [] = (apps', nss)"
    by (cases "disable_apps_loop (entries (TargetMap s)) (entries (Apps s)) []")
  have a: "apps' = map (\<lambda>(k, r).
         (k, if map_of (entries (TargetMap s)) k = Some True then r else Disable r)) (entries (Apps s))"
    using disable_apps_loop_fst [of "entries (TargetMap s)" "entries (Apps s)" "[]"] l by simp
  have n: "\<And>n. map_of nss n = Some True \<longleftrightarrow>
     (\<exists>(k, r) \<in> set (entries (Apps s)). map_of (entries (TargetMap s)) k = Some True \<and> Namespace r = n)"
    using disable_apps_loop_snd [of "entries (TargetMap s)" "entries (Apps s)" "[]"] l by simp
  have apps: "map_option (\<lambda>_. apps') (Apps s) = map_option (map (\<lambda>(k, r).
         (k, if map_of (entries (TargetMap s)) k = Some True then r else Disable r))) (Apps s)"
    by (cases "Apps s") (simp_all add: a entries_def)
  have nl: "disable_namespaces_loop nss = map (\<lambda>(n, ns).
         (n, if \<exists>(k, r) \<in> set (entries (Apps s)).
                  map_of (entries (TargetMap s)) k = Some True \<and> Namespace r = n
             then ns else ns_Disable ns))"
    by (rule ext) (simp add: disable_namespaces_loop_map n)
  show ?thesis
    using assms by (simp add: disableUntargettedApps_def l apps nl)
qed

lemma entries_map_option: "entries (map_option (map f) m) = map f (entries m)"
  by (cases m) (simp_all add: entries_def)

lemma disableUntargettedApps_entries:
  assumes "len (TargetMap s) \<noteq> 0"
  shows "entries (Apps (disableUntargettedApps s)) = map (\<lambda>(k, r).
           (k, if map_of (entries (TargetMap s)) k = Some True then r else Disable r)) (entries (Apps s))"
    and "entries (Namespaces (disableUntargettedApps s)) = map (\<lambda>(n, ns).
           (n, if \<exists>(k, r) \<in> set (entries (Apps s)).
                    map_of (entries (TargetMap s)) k = Some True \<and> Namespace r = n
               then ns else ns_Disable ns)) (entries (Namespaces s))"
  by (simp_all add: disableUntargettedApps_eq [OF assms] entries_map_option)

lemma makeTargetMap_Apps: "Apps (makeTargetMap s groups targets) = Apps s"
  and makeTargetMap_Namespaces: "Namespaces (makeTargetMap s groups targets) = Namespaces s"
  by (simp_all add: makeTargetMap_def Let_def)

lemma in_set_map_values:
  "(k, v') \<in> set (map (\<lambda>(k, v). (k, f k v)) xs) \<longleftrightarrow> (\<exists>v. (k, v) \<in> set xs \<and> v' = f k v)"
  by (induction xs) auto

lemma in_disabled_apps:
  assumes "len (TargetMap s) \<noteq> 0"
  shows "(k, r') \<in> set (entries (Apps (disableUntargettedApps s))) \<longleftrightarrow>
     (\<exists>r. (k, r) \<in> set (entries (Apps s)) \<and>
          r' = (if map_of (entries (TargetMap s)) k = Some True then r else Disable r))"
  unfolding disableUntargettedApps_entries(1) [OF assms] by (rule in_set_map_values)

lemma in_disabled_namespaces:
  assumes "len (TargetMap s) \<noteq> 0"
  shows "(n, ns') \<in> set (entries (Namespaces (disableUntargettedApps s))) \<longleftrightarrow>
     (\<exists>ns. (n, ns) \<in> set (entries (Namespaces s)) \<and>
          ns' = (if \<exists>(k, r) \<in> set (entries (Apps s)).
                    map_of (entries (TargetMap s)) k = Some True \<and> Namespace r = n
               then ns else ns_Disable ns))"
  unfolding disableUntargettedApps_entries(2) [OF assms] by (rule in_set_map_values)


text \<open>
  C3. With a non-empty \<open>TargetMap\<close>, \<open>disableUntargettedApps\<close> calls \<open>Disable\<close> on
  exactly the releases whose key is absent from the \<open>TargetMap\<close> or mapped to
  \<open>false\<close>, and then on exactly the namespaces that are not the namespace of a
  release it left alone; nothing else in the document changes. The namespace decision
  reads the whole set of surviving releases, so it comes after all release decisions.
  In a document whose releases and namespaces are all enabled beforehand this reads:
  a release ends up disabled if and only if it is not targeted, and a namespace ends
  up enabled if and only if some release that is still enabled lives in it.
\<close>

theorem disableUntargettedApps_cascade:
  assumes "len (TargetMap s) \<noteq> 0"
  shows "disableUntargettedApps s = s\<lparr>
       Apps := map_option (map (\<lambda>(k, r).
           (k, if map_of (entries (TargetMap s)) k = Some True then r else Disable r))) (Apps s),
       Namespaces := map_option (map (\<lambda>(n, ns).
           (n, if \<exists>(k, r) \<in> set (entries (Apps s)).
                    map_of (entries (TargetMap s)) k = Some True \<and> Namespace r = n
               then ns else ns_Disable ns))) (Namespaces s)\<rparr>
     \<and> ((\<forall>(k, r) \<in> set (entries (Apps s)). \<not> disabled r) \<and>
        (\<forall>(n, ns) \<in> set (entries (Namespaces s)). \<not> ns_disabled ns) \<longrightarrow>
          (\<forall>(k, r') \<in> set (entries (Apps (disableUntargettedApps s))).
              disabled r' \<longleftrightarrow> map_of (entries (TargetMap s)) k \<noteq> Some True)
        \<and> (\<forall>(n, ns') \<in> set (entries (Namespaces (disableUntargettedApps s))).
              \<not> ns_disabled ns' \<longleftrightarrow>
                (\<exists>(k, r') \<in> set (entries (Apps (disableUntargettedApps s))).
                    \<not> disabled r' \<and> Namespace r' = n)))"
proof (rule conjI)
  show "disableUntargettedApps s = s\<lparr>
       Apps := map_option (map (\<lambda>(k, r).
           (k, if map_of (entries (TargetMap s)) k = Some True then r else Disable r))) (Apps s),
       Namespaces := map_option (map (\<lambda>(n, ns).
           (n, if \<exists>(k, r) \<in> set (entries (Apps s)).
                    map_of (entries (TargetMap s)) k = Some True \<and> Namespace r = n
               then ns else ns_Disable ns))) (Namespaces s)\<rparr>"
    by (rule disableUntargettedApps_eq [OF assms])
next
  show "(\<forall>(k, r) \<in> set (entries (Apps s)). \<not> disabled r) \<and>
        (\<forall>(n, ns) \<in> set (entries (Namespaces s)). \<not> ns_disabled ns) \<longrightarrow>
          (\<forall>(k, r') \<in> set (entries (Apps (disableUntargettedApps s))).
              disabled r' \<longleftrightarrow> map_of (entries (TargetMap s)) k \<noteq> Some True)
        \<and> (\<forall>(n, ns') \<in> set (entries (Namespaces (disableUntargettedApps s))).
              \<not> ns_disabled ns' \<longleftrightarrow>
                (\<exists>(k, r') \<in> set (entries (Apps (disableUntargettedApps s))).
                    \<not> disabled r' \<and> Namespace r' = n))"
  proof (rule impI)
    assume h: "(\<forall>(k, r) \<in> set (entries (Apps s)). \<not> disabled r) \<and>
        (\<forall>(n, ns) \<in> set (entries (Namespaces s)). \<not> ns_disabled ns)"
    have en: "\<not> disabled r" if "(k, r) \<in> set (entries (Apps s))" for k r
      using h that by blast
    have nen: "\<not> ns_disabled ns" if "(n, ns) \<in> set (entries (Namespaces s))" for n ns
      using h that by blast
    have a: "disabled r' \<longleftrightarrow> map_of (entries (TargetMap s)) k \<noteq> Some True"
      if "(k, r') \<in> set (entries (Apps (disableUntargettedApps s)))" for k r'
    proof -
      from that obtain r where r: "(k, r) \<in> set (entries (Apps s))"
        and r': "r' = (if map_of (entries (TargetMap s)) k = Some True then r else Disable r)"
        unfolding in_disabled_apps [OF assms] by blast
      from en [OF r] show ?thesis by (simp add: r' Disable_def)
    qed
    have surv: "(\<exists>(k, r') \<in> set (entries (Apps (disableUntargettedApps s))).
                    \<not> disabled r' \<and> Namespace r' = n) \<longleftrightarrow>
                (\<exists>(k, r) \<in> set (entries (Apps s)).
                    map_of (entries (TargetMap s)) k = Some True \<and> Namespace r = n)" for n
    proof
      assume "\<exists>(k, r') \<in> set (entries (Apps (disableUntargettedApps s))).
                    \<not> disabled r' \<and> Namespace r' = n"
      then obtain k r' where m: "(k, r') \<in> set (entries (Apps (disableUntargettedApps s)))"
        and d: "\<not> disabled r'" and n: "Namespace r' = n" by blast
      from m obtain r where r: "(k, r) \<in> set (entries (Apps s))"
        and r': "r' = (if map_of (entries (TargetMap s)) k = Some True then r else Disable r)"
        unfolding in_disabled_apps [OF assms] by blast
      from d r' have t: "map_of (entries (TargetMap s)) k = Some True"
        by (auto simp: Disable_def split: if_splits)
      with r' n have "Namespace r = n" by simp
      with r t show "\<exists>(k, r) \<in> set (entries (Apps s)).
                    map_of (entries (TargetMap s)) k = Some True \<and> Namespace r = n" by blast
    next
      assume "\<exists>(k, r) \<in> set (entries (Apps s)).
                    map_of (entries (TargetMap s)) k = Some True \<and> Namespace r = n"
      then obtain k r where r: "(k, r) \<in> set (entries (Apps s))"
        and t: "map_of (entries (TargetMap s)) k = Some True" and n: "Namespace r = n" by blast
      from r t have "(k, r) \<in> set (entries (Apps (disableUntargettedApps s)))"
        unfolding in_disabled_apps [OF assms] by simp
      with en [OF r] n show "\<exists>(k, r') \<in> set (entries (Apps (disableUntargettedApps s))).
                    \<not> disabled r' \<and> Namespace r' = n" by blast
    qed
    have b: "\<not> ns_disabled ns' \<longleftrightarrow>
                (\<exists>(k, r') \<in> set (entries (Apps (disableUntargettedApps s))).
                    \<not> disabled r' \<and> Namespace r' = n)"
      if "(n, ns') \<in> set (entries (Namespaces (disableUntargettedApps s)))" for n ns'
    proof -
      from that obtain ns where ns: "(n, ns) \<in> set (entries (Namespaces s))"
        and ns': "ns' = (if \<exists>(k, r) \<in> set (entries (Apps s)).
                    map_of (entries (TargetMap s)) k = Some True \<and> Namespace r = n
               then ns else ns_Disable ns)"
        unfolding in_disabled_namespaces [OF assms] by blast
      from nen [OF ns] show ?thesis
        unfolding surv by (simp add: ns' ns_Disable_def)
    qed
    from a have A: "\<forall>(k, r') \<in> set (entries (Apps (disableUntargettedApps s))).
              disabled r' \<longleftrightarrow> map_of (entries (TargetMap s)) k \<noteq> Some True"
      by blast
    from b have B: "\<forall>(n, ns') \<in> set (entries (Namespaces (disableUntargettedApps s))).
              \<not> ns_disabled ns' \<longleftrightarrow>
                (\<exists>(k, r') \<in> set (entries (Apps (disableUntargettedApps s))).
                    \<not> disabled r' \<and> Namespace r' = n)"
      by blast
    from A B show "(\<forall>(k, r') \<in> set (entries (Apps (disableUntargettedApps s))).
              disabled r' \<longleftrightarrow> map_of (entries (TargetMap s)) k \<noteq> Some True)
        \<and> (\<forall>(n, ns') \<in> set (entries (Namespaces (disableUntargettedApps s))).
              \<not> ns_disabled ns' \<longleftrightarrow>
                (\<exists>(k, r') \<in> set (entries (Apps (disableUntargettedApps s))).
                    \<not> disabled r' \<and> Namespace r' = n))"
      by (rule conjI)
  qed
qed

theorem disableUntargettedApps_cascade_witness:
  "len (TargetMap example_targeted) \<noteq> 0
   \<and> map (\<lambda>(k, r). (k, disabled r)) (entries (Apps example_targeted)) =
       [(''app1'', False), (''app2'', False), (''app3'', False)]
   \<and> map (\<lambda>(k, r). (k, disabled r)) (entries (Apps (disableUntargettedApps example_targeted))) =
       [(''app1'', False), (''app2'', True), (''app3'', True)]
   \<and> map (\<lambda>(n, ns). (n, ns_disabled ns)) (entries (Namespaces (disableUntargettedApps example_targeted))) =
       [(''ns1'', False), (''ns2'', True), (''ns3'', True)]"
proof -
  have ne: "len (TargetMap example_targeted) \<noteq> 0"
    by (simp add: example_targeted_def len_def entries_def)
  from disableUntargettedApps_cascade [OF ne]
  have eq: "disableUntargettedApps example_targeted = example_targeted\<lparr>
       Apps := map_option (map (\<lambda>(k, r).
           (k, if map_of (entries (TargetMap example_targeted)) k = Some True then r else Disable r)))
             (Apps example_targeted),
       Namespaces := map_option (map (\<lambda>(n, ns).
           (n, if \<exists>(k, r) \<in> set (entries (Apps example_targeted)).
                    map_of (entries (TargetMap example_targeted)) k = Some True \<and> Namespace r = n
               then ns else ns_Disable ns))) (Namespaces example_targeted)\<rparr>"
    by (rule conjunct1)
  show ?thesis
    unfolding eq
    by (simp add: example_targeted_def example_state_def state_zero_def release_zero_def
          len_def entries_def Disable_def ns_Disable_def)
qed

text \<open>
  C4. \<open>makeTargetMap\<close> selects the union: after the call a key is in the
  \<open>TargetMap\<close> if and only if a release declared under that key has a group among
  \<open>groups\<close>, or the key is among the requested names, or it was in the \<open>TargetMap\<close>
  before; the keys selected by group or by name are mapped to \<open>true\<close>. With groups
  \<open>g1\<close>, names \<open>app3\<close> and the three releases of the example the selected set is
  \<open>app1\<close> and \<open>app3\<close>.
\<close>

theorem makeTargetMap_union:
  "(has_key (TargetMap (makeTargetMap s groups targets)) k \<longleftrightarrow>
      (\<exists>r. (k, r) \<in> set (entries (Apps s)) \<and> Group r \<in> set groups)
      \<or> k \<in> set targets \<or> has_key (TargetMap s) k)
   \<and> (map_of (entries (TargetMap (makeTargetMap s groups targets))) k = Some True \<longleftrightarrow>
      (\<exists>r. (k, r) \<in> set (entries (Apps s)) \<and> Group r \<in> set groups)
      \<or> k \<in> set targets \<or> map_of (entries (TargetMap s)) k = Some True)"
proof (cases "k \<in> set targets \<or> (\<exists>r. (k, r) \<in> set (entries (Apps s)) \<and> Group r \<in> set groups)")
  case True
  then have "map_of (entries (TargetMap (makeTargetMap s groups targets))) k = Some True"
    by (simp only: makeTargetMap_lookup if_True)
  with True show ?thesis unfolding has_key_def by blast
next
  case False
  then have "map_of (entries (TargetMap (makeTargetMap s groups targets))) k =
               map_of (entries (TargetMap s)) k"
    by (simp only: makeTargetMap_lookup if_False)
  with False show ?thesis unfolding has_key_def by metis
qed


lemma example_state_apps:
  "entries (Apps example_state) =
     [(''app1'', release_zero\<lparr>Namespace := ''ns1'', Group := ''g1'', Chart := ''repo/a'', Version := ''1.0''\<rparr>),
      (''app2'', release_zero\<lparr>Namespace := ''ns2'', Group := ''g2'', Chart := ''repo/b'', Version := ''2.0''\<rparr>),
      (''app3'', release_zero\<lparr>Namespace := ''ns3'', Group := ''g3'', Chart := ''repo/a'', Version := ''1.0''\<rparr>)]"
  by (simp add: example_state_def entries_def)

theorem makeTargetMap_union_witness:
  "\<forall>k. has_key (TargetMap (makeTargetMap example_state [''g1''] [''app3''])) k
        \<longleftrightarrow> k = ''app1'' \<or> k = ''app3''"
proof
  fix k
  have g: "(\<exists>r. (k, r) \<in> set (entries (Apps example_state)) \<and> Group r \<in> set [''g1'']) \<longleftrightarrow> k = ''app1''"
    unfolding example_state_apps by (simp add: release_zero_def conj_disj_distribR ex_disj_distrib)
  have t: "\<not> has_key (TargetMap example_state) k"
    by (simp add: example_state_def state_zero_def has_key_def entries_def)
  have "has_key (TargetMap (makeTargetMap example_state [''g1''] [''app3''])) k \<longleftrightarrow>
      (\<exists>r. (k, r) \<in> set (entries (Apps example_state)) \<and> Group r \<in> set [''g1''])
      \<or> k \<in> set [''app3''] \<or> has_key (TargetMap example_state) k"
    using makeTargetMap_union [of example_state "[''g1'']" "[''app3'']" k] by (rule conjunct1)
  then show "has_key (TargetMap (makeTargetMap example_state [''g1''] [''app3''])) k
        \<longleftrightarrow> k = ''app1'' \<or> k = ''app3''"
    unfolding g using t by simp
qed

lemma disable_all:
  assumes empty: "len (TargetMap s) = 0" and ne: "targets \<noteq> []"
    and none: "\<forall>(k, r) \<in> set (entries (Apps s)). k \<notin> set targets \<and> Group r \<notin> set groups"
  shows "disableUntargettedApps (makeTargetMap s groups targets) =
          (makeTargetMap s groups targets)\<lparr>
             Apps := map_option (map (\<lambda>(k, r). (k, Disable r))) (Apps s),
             Namespaces := map_option (map (\<lambda>(n, ns). (n, ns_Disable ns))) (Namespaces s)\<rparr>"
proof -
  let ?s' = "makeTargetMap s groups targets"
  have e: "entries (TargetMap s) = []" using empty by (simp add: len_def)
  have nt: "map_of (entries (TargetMap ?s')) k \<noteq> Some True"
    if "(k, r) \<in> set (entries (Apps s))" for k r
    using none that by (auto simp: makeTargetMap_lookup e)
  have apps: "map_option (map (\<lambda>(k, r).
           (k, if map_of (entries (TargetMap ?s')) k = Some True then r else Disable r))) (Apps s)
        = map_option (map (\<lambda>(k, r). (k, Disable r))) (Apps s)"
  proof (cases "Apps s")
    case None
    then show ?thesis by simp
  next
    case (Some xs)
    have "map (\<lambda>(k, r).
           (k, if map_of (entries (TargetMap ?s')) k = Some True then r else Disable r)) xs
         = map (\<lambda>(k, r). (k, Disable r)) xs"
      using nt Some by (intro map_cong) (auto simp: entries_simps)
    with Some show ?thesis by simp
  qed
  have no: "\<not> (\<exists>(k, r) \<in> set (entries (Apps s)).
                    map_of (entries (TargetMap ?s')) k = Some True \<and> Namespace r = n)" for n
    using nt by blast
  show ?thesis
    by (subst disableUntargettedApps_eq [OF makeTargetMap_nonempty [OF ne]])
       (simp only: makeTargetMap_Apps makeTargetMap_Namespaces apps no if_False)
qed



text \<open>
  C10. Every requested name is in the \<open>TargetMap\<close> with value \<open>true\<close> after
  \<open>makeTargetMap\<close>, whether or not a release has that name; if all entries were
  \<open>true\<close> before (as in a nil or empty map) all are \<open>true\<close> after; a non-empty list of
  names gives a non-empty \<open>TargetMap\<close>; and when the map was empty before, the names
  match no release and the groups match no release, \<open>disableUntargettedApps\<close> then
  disables every release and every namespace of the document.
\<close>

theorem makeTargetMap_unknown_names:
  "(\<forall>v \<in> set targets. map_of (entries (TargetMap (makeTargetMap s groups targets))) v = Some True)
   \<and> ((\<forall>(k, b) \<in> set (entries (TargetMap s)). b) \<longrightarrow>
        (\<forall>(k, b) \<in> set (entries (TargetMap (makeTargetMap s groups targets))). b))
   \<and> (targets \<noteq> [] \<longrightarrow> len (TargetMap (makeTargetMap s groups targets)) \<noteq> 0)
   \<and> (len (TargetMap s) = 0 \<and> targets \<noteq> [] \<and>
        (\<forall>(k, r) \<in> set (entries (Apps s)). k \<notin> set targets \<and> Group r \<notin> set groups) \<longrightarrow>
        disableUntargettedApps (makeTargetMap s groups targets) =
          (makeTargetMap s groups targets)\<lparr>
             Apps := map_option (map (\<lambda>(k, r). (k, Disable r))) (Apps s),
             Namespaces := map_option (map (\<lambda>(n, ns). (n, ns_Disable ns))) (Namespaces s)\<rparr>)"
proof (intro conjI impI)
  show "\<forall>v \<in> set targets. map_of (entries (TargetMap (makeTargetMap s groups targets))) v = Some True"
    by (simp add: makeTargetMap_lookup)
next
  assume "\<forall>(k, b) \<in> set (entries (TargetMap s)). b"
  then show "\<forall>(k, b) \<in> set (entries (TargetMap (makeTargetMap s groups targets))). b"
    by (rule makeTargetMap_values)
next
  assume "targets \<noteq> []"
  then show "len (TargetMap (makeTargetMap s groups targets)) \<noteq> 0"
    by (rule makeTargetMap_nonempty)
next
  assume h: "len (TargetMap s) = 0 \<and> targets \<noteq> [] \<and>
        (\<forall>(k, r) \<in> set (entries (Apps s)). k \<notin> set targets \<and> Group r \<notin> set groups)"
  note a = h [THEN conjunct1]
    and b = h [THEN conjunct2, THEN conjunct1]
    and c = h [THEN conjunct2, THEN conjunct2]
  from a b c show "disableUntargettedApps (makeTargetMap s groups targets) =
          (makeTargetMap s groups targets)\<lparr>
             Apps := map_option (map (\<lambda>(k, r). (k, Disable r))) (Apps s),
             Namespaces := map_option (map (\<lambda>(n, ns). (n, ns_Disable ns))) (Namespaces s)\<rparr>"
    by (rule disable_all)
qed

theorem makeTargetMap_unknown_names_witness:
  "map_of (entries (TargetMap (makeTargetMap example_state [] [''nosuchapp'']))) ''nosuchapp'' = Some True
   \<and> len (TargetMap (makeTargetMap example_state [] [''nosuchapp''])) \<noteq> 0
   \<and> map (\<lambda>(k, r). (k, disabled r))
        (entries (Apps (disableUntargettedApps (makeTargetMap example_state [] [''nosuchapp''])))) =
       [(''app1'', True), (''app2'', True), (''app3'', True)]
   \<and> map (\<lambda>(n, ns). (n, ns_disabled ns))
        (entries (Namespaces (disableUntargettedApps (makeTargetMap example_state [] [''nosuchapp''])))) =
       [(''ns1'', True), (''ns2'', True), (''ns3'', True)]"
proof -
  note inst = makeTargetMap_unknown_names [where s = example_state and groups = "[]" and targets = "[''nosuchapp'']"]
  have h: "len (TargetMap example_state) = 0 \<and> [''nosuchapp''] \<noteq> [] \<and>
        (\<forall>(k, r) \<in> set (entries (Apps example_state)). k \<notin> set [''nosuchapp''] \<and> Group r \<notin> set [])"
    by (simp add: example_state_def state_zero_def len_def entries_def)
  from inst [THEN conjunct1]
  have 1: "map_of (entries (TargetMap (makeTargetMap example_state [] [''nosuchapp'']))) ''nosuchapp'' = Some True"
    by simp
  from inst [THEN conjunct2, THEN conjunct2, THEN conjunct1]
  have 2: "len (TargetMap (makeTargetMap example_state [] [''nosuchapp''])) \<noteq> 0"
    by simp
  note eq = inst [THEN conjunct2, THEN conjunct2, THEN conjunct2, THEN mp, OF h]
  have 3: "map (\<lambda>(k, r). (k, disabled r))
        (entries (Apps (disableUntargettedApps (makeTargetMap example_state [] [''nosuchapp''])))) =
       [(''app1'', True), (''app2'', True), (''app3'', True)]"
    unfolding eq by (simp add: example_state_def entries_def Disable_def)
  have 4: "map (\<lambda>(n, ns). (n, ns_disabled ns))
        (entries (Namespaces (disableUntargettedApps (makeTargetMap example_state [] [''nosuchapp''])))) =
       [(''ns1'', True), (''ns2'', True), (''ns3'', True)]"
    unfolding eq by (simp add: example_state_def entries_def ns_Disable_def)
  from 1 2 3 4 show ?thesis by (intro conjI)
qed

section \<open>Defaults and inheritance\<close>

lemma inheritHooks_frame:
  "inheritHooks (s\<lparr>Context := c\<rparr>) r = inheritHooks s r"
  "inheritHooks (s\<lparr>Apps := a\<rparr>) r = inheritHooks s r"
  "GlobalHooks st = GlobalHooks (Settings s) \<Longrightarrow> inheritHooks (s\<lparr>Settings := st\<rparr>) r = inheritHooks s r"
  by (simp_all add: inheritHooks_def)

lemma inheritMaxHistory_frame:
  "inheritMaxHistory (s\<lparr>Context := c\<rparr>) r = inheritMaxHistory s r"
  "inheritMaxHistory (s\<lparr>Apps := a\<rparr>) r = inheritMaxHistory s r"
  "GlobalMaxHistory st = GlobalMaxHistory (Settings s) \<Longrightarrow>
     inheritMaxHistory (s\<lparr>Settings := st\<rparr>) r = inheritMaxHistory s r"
  by (simp_all add: inheritMaxHistory_def)

lemma release_defaults_idem:
  "inheritMaxHistory s (inheritHooks s
     (if Name (inheritMaxHistory s (inheritHooks s (if Name r = '''' then r\<lparr>Name := name\<rparr> else r))) = ''''
      then (inheritMaxHistory s (inheritHooks s (if Name r = '''' then r\<lparr>Name := name\<rparr> else r)))\<lparr>Name := name\<rparr>
      else inheritMaxHistory s (inheritHooks s (if Name r = '''' then r\<lparr>Name := name\<rparr> else r))))
   = inheritMaxHistory s (inheritHooks s (if Name r = '''' then r\<lparr>Name := name\<rparr> else r))"
  by (cases r) (simp add: inheritHooks_def inheritMaxHistory_def)

lemma map_values_idem:
  assumes "\<And>name r. F name (F name r) = F name r"
  shows "map (\<lambda>(name, r). (name, F name r)) (map (\<lambda>(name, r). (name, F name r)) xs)
           = map (\<lambda>(name, r). (name, F name r)) xs"
  by (induction xs) (auto simp: assms)

lemma setDefaults_snd:
  "snd (setDefaults w env s) = s\<lparr>
     Settings := (Settings s)\<lparr>StorageBackend :=
        (if StorageBackend (Settings s) \<noteq> '''' then StorageBackend (Settings s) else ''secret'')\<rparr>,
     Context := (if Context s = '''' then defaultContextName w else Context s),
     Apps := map_option (map (\<lambda>(name, r). (name,
                inheritMaxHistory s (inheritHooks s
                  (if Name r = '''' then r\<lparr>Name := name\<rparr> else r))))) (Apps s)\<rparr>"
  by (simp add: setDefaults_def Let_def inheritHooks_frame inheritMaxHistory_frame)

text \<open>
  C6. \<open>setDefaults\<close> is idempotent on the document: running it again on the
  document it returned, in whatever process environment, returns the same document.
  (The environment is another matter: the first run leaves it alone when the storage
  backend was unset, the second one then exports the default.)
\<close>

theorem setDefaults_idempotent:
  "snd (setDefaults w env' (snd (setDefaults w env s))) = snd (setDefaults w env s)"
proof -
  let ?F = "\<lambda>name r. inheritMaxHistory s (inheritHooks s
                  (if Name r = '''' then r\<lparr>Name := name\<rparr> else r))"
  let ?s' = "snd (setDefaults w env s)"
  have settings: "GlobalHooks (Settings ?s') = GlobalHooks (Settings s)"
      "GlobalMaxHistory (Settings ?s') = GlobalMaxHistory (Settings s)"
    by (simp_all add: setDefaults_snd)
  have ih: "inheritHooks ?s' = inheritHooks s"
    by (rule ext) (simp add: inheritHooks_def settings)
  have im: "inheritMaxHistory ?s' = inheritMaxHistory s"
    by (rule ext) (simp add: inheritMaxHistory_def settings)
  have apps: "Apps ?s' = map_option (map (\<lambda>(name, r). (name, ?F name r))) (Apps s)"
    by (simp add: setDefaults_snd)
  have idem: "map_option (map (\<lambda>(name, r). (name, ?F name r))) (Apps ?s') = Apps ?s'"
  proof (cases "Apps s")
    case None
    then show ?thesis by (simp add: apps)
  next
    case (Some xs)
    have m: "map (\<lambda>(name, r). (name, ?F name r)) (map (\<lambda>(name, r). (name, ?F name r)) xs)
               = map (\<lambda>(name, r). (name, ?F name r)) xs"
      by (rule map_values_idem) (rule release_defaults_idem)
    show ?thesis
      unfolding apps Some option.map m by (rule refl)
  qed
  have sb: "StorageBackend (Settings ?s') \<noteq> ''''"
    by (simp add: setDefaults_snd)
  have ctx: "(if Context ?s' = '''' then defaultContextName w else Context ?s') = Context ?s'"
    by (simp add: setDefaults_snd)
  have "snd (setDefaults w env' ?s') = ?s'\<lparr>
     Settings := (Settings ?s')\<lparr>StorageBackend :=
        (if StorageBackend (Settings ?s') \<noteq> '''' then StorageBackend (Settings ?s') else ''secret'')\<rparr>,
     Context := (if Context ?s' = '''' then defaultContextName w else Context ?s'),
     Apps := map_option (map (\<lambda>(name, r). (name,
                inheritMaxHistory ?s' (inheritHooks ?s'
                  (if Name r = '''' then r\<lparr>Name := name\<rparr> else r))))) (Apps ?s')\<rparr>"
    by (rule setDefaults_snd)
  also have "\<dots> = ?s'"
    unfolding ih im idem ctx using sb by simp
  finally show ?thesis .
qed

theorem setDefaults_idempotent_witness:
  "snd (setDefaults example_world [] (snd (setDefaults example_world [] example_inherit))) =
     snd (setDefaults example_world [] example_inherit)
   \<and> StorageBackend (Settings (snd (setDefaults example_world [] example_inherit))) = ''secret''
   \<and> Context (snd (setDefaults example_world [] example_inherit)) = ''default''
   \<and> map (\<lambda>(k, r). (Name r, MaxHistory r, Hooks r))
        (entries (Apps (snd (setDefaults example_world [] example_inherit)))) =
       [(''app1'', 5, Some [(''preInstall'', ''job.yaml'')]),
        (''app2'', 5, Some [(''preInstall'', ''job.yaml'')]),
        (''app3'', 5, Some [(''preInstall'', ''job.yaml'')])]
   \<and> fst (setDefaults example_world [] example_inherit) = []
   \<and> fst (setDefaults example_world [] (snd (setDefaults example_world [] example_inherit))) =
       [(''HELM_DRIVER'', ''secret'')]"
proof -
  have 1: "StorageBackend (Settings (snd (setDefaults example_world [] example_inherit))) = ''secret''"
    by (simp add: setDefaults_snd example_inherit_def config_zero_def)
  have 2: "Context (snd (setDefaults example_world [] example_inherit)) = ''default''"
    by (simp add: setDefaults_snd example_inherit_def example_state_def state_zero_def
          example_world_def)
  have 3: "map (\<lambda>(k, r). (Name r, MaxHistory r, Hooks r))
        (entries (Apps (snd (setDefaults example_world [] example_inherit)))) =
       [(''app1'', 5, Some [(''preInstall'', ''job.yaml'')]),
        (''app2'', 5, Some [(''preInstall'', ''job.yaml'')]),
        (''app3'', 5, Some [(''preInstall'', ''job.yaml'')])]"
    by (simp add: setDefaults_snd example_inherit_def example_state_def state_zero_def
          release_zero_def config_zero_def entries_def len_def inheritHooks_def
          inheritMaxHistory_def)
  have fst_eq: "fst (setDefaults w env s) =
      (if StorageBackend (Settings s) \<noteq> ''''
       then AList.update ''HELM_DRIVER'' (StorageBackend (Settings s)) env else env)" for w env s
    by (simp add: setDefaults_def Let_def)
  have 4: "fst (setDefaults example_world [] example_inherit) = []"
    by (simp add: fst_eq example_inherit_def config_zero_def)
  have 5: "fst (setDefaults example_world [] (snd (setDefaults example_world [] example_inherit))) =
       [(''HELM_DRIVER'', ''secret'')]"
    unfolding fst_eq 1 by simp
  from setDefaults_idempotent [of example_world "[]" "[]" example_inherit] 1 2 3 4 5
  show ?thesis by (intro conjI)
qed

section \<open>Chart validation\<close>

lemma fold_fail:
  "fold (\<lambda>err fail. if err \<noteq> '''' then True else fail) c b = (b \<or> (\<exists>err \<in> set c. err \<noteq> ''''))"
  by (induction c arbitrary: b) auto

lemma length_update_le: "length (AList.update k v al) \<le> Suc (length al)"
  by (induction al) auto

lemma calls_update_le:
  "length (concat (map (\<lambda>(c, vs). map (f c) vs) (AList.update k vs' charts)))
     \<le> length (concat (map (\<lambda>(c, vs). map (f c) vs) charts))
        + (length vs' - length (case map_of charts k of None \<Rightarrow> [] | Some vs \<Rightarrow> vs))"
  by (induction charts) auto

lemma launched_alt:
  "launched charts = concat (map (\<lambda>(c, vs). map (\<lambda>(version, apps). (Join apps '', '', c, version)) vs) charts)"
  by (simp add: launched_def)

lemma launched_step_le:
  "length (launched (AList.update k
       (AList.update v x (case map_of charts k of None \<Rightarrow> [] | Some vs \<Rightarrow> vs)) charts))
     \<le> Suc (length (launched charts))"
proof -
  let ?vs = "case map_of charts k of None \<Rightarrow> [] | Some vs \<Rightarrow> vs"
  have "length (AList.update v x ?vs) - length ?vs \<le> 1"
    using length_update_le [of v x ?vs] by simp
  with calls_update_le [of "\<lambda>c (version, apps). (Join apps '', '', c, version)" k "AList.update v x ?vs" charts]
  show ?thesis by (simp add: launched_alt)
qed

lemma group_charts_length:
  "length (launched (group_charts todo charts)) \<le> length (launched charts) + length todo"
proof (induction todo arbitrary: charts)
  case Nil
  then show ?case by simp
next
  case (Cons a todo)
  obtain app r where a: "a = (app, r)" by (cases a)
  show ?case
  proof (cases "isConsideredToRun r")
    case False
    with Cons.IH [of charts] show ?thesis by (simp add: a)
  next
    case True
    let ?vs = "case map_of charts (Chart r) of None \<Rightarrow> [] | Some vs \<Rightarrow> vs"
    let ?x = "(case map_of ?vs (Version r) of None \<Rightarrow> [] | Some ns \<Rightarrow> ns) @ [app]"
    let ?charts' = "AList.update (Chart r) (AList.update (Version r) ?x ?vs) charts"
    have "group_charts (a # todo) charts = group_charts todo ?charts'"
      using True by (simp add: a Let_def)
    moreover have "length (launched ?charts') \<le> Suc (length (launched charts))"
      by (rule launched_step_le)
    ultimately show ?thesis
      using Cons.IH [of ?charts'] by simp
  qed
qed


lemma launched_chart_versions:
  "map (\<lambda>(apps, chart, version). (chart, version)) (launched charts) = chart_versions charts"
  by (induction charts) (auto simp: launched_def chart_versions_def)

lemma set_chart_versions:
  "set (chart_versions charts) = {(c, v). \<exists>vs apps. (c, vs) \<in> set charts \<and> (v, apps) \<in> set vs}"
  by (induction charts) (auto simp: chart_versions_def)

lemma in_chart_versions:
  assumes "charts_inv charts"
  shows "(c, v) \<in> set (chart_versions charts) \<longleftrightarrow>
           (\<exists>vs y. map_of charts c = Some vs \<and> map_of vs v = Some y)"
proof
  assume "(c, v) \<in> set (chart_versions charts)"
  then obtain vs apps where 1: "(c, vs) \<in> set charts" and 2: "(v, apps) \<in> set vs"
    unfolding set_chart_versions by blast
  from assms 1 have d: "distinct (map fst vs)" and dc: "distinct (map fst charts)"
    unfolding charts_inv_def by blast+
  from dc 1 have "map_of charts c = Some vs" by simp
  moreover from d 2 have "map_of vs v = Some apps" by simp
  ultimately show "\<exists>vs y. map_of charts c = Some vs \<and> map_of vs v = Some y" by blast
next
  assume "\<exists>vs y. map_of charts c = Some vs \<and> map_of vs v = Some y"
  then obtain vs y where "map_of charts c = Some vs" "map_of vs v = Some y" by blast
  then have "(c, vs) \<in> set charts" "(v, y) \<in> set vs" by (auto dest: map_of_SomeD)
  then show "(c, v) \<in> set (chart_versions charts)"
    unfolding set_chart_versions by blast
qed

lemma distinct_chart_versions:
  "charts_inv charts \<Longrightarrow> distinct (chart_versions charts)"
proof (induction charts)
  case Nil
  then show ?case by (simp add: chart_versions_def)
next
  case (Cons a charts)
  obtain c vs where a: "a = (c, vs)" by (cases a)
  from Cons.prems have inv: "charts_inv charts" and dv: "distinct (map fst vs)"
    and c: "c \<notin> fst ` set charts"
    by (auto simp: charts_inv_def a)
  have head: "distinct (map (\<lambda>(v, apps). (c, v)) vs)"
  proof -
    have "map (\<lambda>(v, apps). (c, v)) vs = map (Pair c) (map fst vs)" by (induction vs) auto
    with dv show ?thesis by (simp add: distinct_map inj_on_def)
  qed
  have disj: "set (map (\<lambda>(v, apps). (c, v)) vs) \<inter> set (chart_versions charts) = {}"
    using c unfolding set_chart_versions by (auto intro: rev_image_eqI)
  have "chart_versions (a # charts) = map (\<lambda>(v, apps). (c, v)) vs @ chart_versions charts"
    by (simp add: chart_versions_def a)
  with head disj Cons.IH [OF inv] show ?case by simp
qed

lemma charts_inv_step:
  assumes "charts_inv charts"
  shows "charts_inv (AList.update c
           (AList.update v x (case map_of charts c of None \<Rightarrow> [] | Some vs \<Rightarrow> vs)) charts)"
proof -
  let ?vs = "case map_of charts c of None \<Rightarrow> [] | Some vs \<Rightarrow> vs"
  have dvs: "distinct (map fst ?vs)"
  proof (cases "map_of charts c")
    case None
    then show ?thesis by simp
  next
    case (Some vs)
    then have "(c, vs) \<in> set charts" by (rule map_of_SomeD)
    with assms Some show ?thesis by (auto simp: charts_inv_def)
  qed
  then have new: "distinct (map fst (AList.update v x ?vs))" by (rule AList.distinct_update)
  have keys: "distinct (map fst (AList.update c (AList.update v x ?vs) charts))"
    using assms by (simp add: charts_inv_def AList.distinct_update)
  have "\<forall>(c', vs') \<in> set (AList.update c (AList.update v x ?vs) charts). distinct (map fst vs')"
    using set_update_subset [of c "AList.update v x ?vs" charts] new assms
    unfolding charts_inv_def by blast
  with keys show ?thesis unfolding charts_inv_def by simp
qed

lemma chart_versions_step:
  assumes "charts_inv charts"
  shows "set (chart_versions (AList.update c
           (AList.update v x (case map_of charts c of None \<Rightarrow> [] | Some vs \<Rightarrow> vs)) charts))
         = insert (c, v) (set (chart_versions charts))"
proof -
  let ?vs = "case map_of charts c of None \<Rightarrow> [] | Some vs \<Rightarrow> vs"
  let ?charts' = "AList.update c (AList.update v x ?vs) charts"
  have inv': "charts_inv ?charts'" using assms by (rule charts_inv_step)
  have "(c', v') \<in> set (chart_versions ?charts') \<longleftrightarrow>
          (c', v') \<in> insert (c, v) (set (chart_versions charts))" for c' v'
    unfolding in_chart_versions [OF inv'] insert_iff in_chart_versions [OF assms]
    by (cases "map_of charts c") (auto simp: AList.update_conv')
  then show ?thesis by auto
qed

lemma group_charts_inv:
  "charts_inv charts \<Longrightarrow>
   charts_inv (group_charts todo charts) \<and>
   set (chart_versions (group_charts todo charts)) =
     set (chart_versions charts) \<union>
     {(Chart r, Version r) | k r. (k, r) \<in> set todo \<and> isConsideredToRun r}"
proof (induction todo arbitrary: charts)
  case Nil
  then show ?case by simp
next
  case (Cons a todo)
  obtain app r where a: "a = (app, r)" by (cases a)
  show ?case
  proof (cases "isConsideredToRun r")
    case False
    with Cons.IH [OF Cons.prems] show ?thesis by (auto simp: a)
  next
    case True
    let ?vs = "case map_of charts (Chart r) of None \<Rightarrow> [] | Some vs \<Rightarrow> vs"
    let ?x = "(case map_of ?vs (Version r) of None \<Rightarrow> [] | Some ns \<Rightarrow> ns) @ [app]"
    let ?charts' = "AList.update (Chart r) (AList.update (Version r) ?x ?vs) charts"
    have g: "group_charts (a # todo) charts = group_charts todo ?charts'"
      using True by (simp add: a Let_def)
    have inv': "charts_inv ?charts'" using Cons.prems by (rule charts_inv_step)
    have s: "set (chart_versions ?charts') = insert (Chart r, Version r) (set (chart_versions charts))"
      using Cons.prems by (rule chart_versions_step)
    from Cons.IH [OF inv'] True show ?thesis
      unfolding g s by (auto simp: a)
  qed
qed

lemma bex_map_calls:
  "(\<exists>err \<in> set (map (\<lambda>(apps, chart, version). f apps chart version) calls). P err)
     \<longleftrightarrow> (\<exists>(apps, chart, version) \<in> set calls. P (f apps chart version))"
  by (induction calls) auto

lemma versions_loop_eq:
  "versions_loop w chart vs (calls, c) =
     (calls @ map (\<lambda>(version, apps). (Join apps '', '', chart, version)) vs,
      c @ map (\<lambda>(version, apps). validateChart w (Join apps '', '') chart version) vs)"
  by (induction vs arbitrary: calls c) (auto simp: Let_def)

lemma charts_loop_eq:
  "charts_loop w charts (calls, c) =
     (calls @ launched charts,
      c @ map (\<lambda>(apps, chart, version). validateChart w apps chart version) (launched charts))"
proof (induction charts arbitrary: calls c)
  case Nil
  then show ?case by (simp add: launched_def)
next
  case (Cons a charts)
  obtain chart versions where a: "a = (chart, versions)" by (cases a)
  have m: "map (\<lambda>(apps, chart, version). validateChart w apps chart version)
             (map (\<lambda>(version, apps). (Join apps '', '', chart, version)) versions)
           = map (\<lambda>(version, apps). validateChart w (Join apps '', '') chart version) versions"
    by (induction versions) auto
  show ?case
    by (auto simp add: a versions_loop_eq Cons.IH launched_def)
qed

lemma drain_loop_eq:
  "drain_loop c (fail, seen, logs) =
     (fail \<or> (\<exists>err \<in> set c. err \<noteq> ''''), seen @ c, logs @ filter (\<lambda>err. err \<noteq> '''') c)"
  by (induction c arbitrary: fail seen logs) auto

lemma launched_empty_iff:
  "launched charts \<noteq> [] \<longleftrightarrow> (\<exists>(chart, versions) \<in> set charts. versions \<noteq> [])"
  by (induction charts) (auto simp: launched_def)

lemma validateReleaseCharts_run:
  assumes "0 < resourcePool w"
  shows "validateReleaseCharts w s = Some \<lparr>
           returned = (if \<exists>(apps, chart, version) \<in> set (launched (group_charts (entries (Apps s)) [])).
                            validateChart w apps chart version \<noteq> ''''
                       then Some (New ''chart validation failed'') else None),
           probed = launched (group_charts (entries (Apps s)) []),
           received = map (\<lambda>(apps, chart, version). validateChart w apps chart version)
                        (launched (group_charts (entries (Apps s)) [])),
           logged = filter (\<lambda>err. err \<noteq> '''')
                      (map (\<lambda>(apps, chart, version). validateChart w apps chart version)
                        (launched (group_charts (entries (Apps s)) []))) \<rparr>"
  using assms
  by (auto simp add: validateReleaseCharts_def Let_def charts_loop_eq drain_loop_eq)

text \<open>
  C5. With a semaphore of at least one slot, \<open>validateReleaseCharts\<close> returns, and
  its run is fail-slow. It probes one chart and version for every release that is
  considered to run, and no other: the pairs probed are exactly the pairs of those
  releases, each once, and never more than the result channel has room for. It
  receives the string of every probe, whatever the earlier ones were; it logs exactly
  the non-empty ones; and it returns the error \<open>chart validation failed\<close> if and only
  if some probe sent a non-empty string, otherwise \<open>nil\<close>. Strings received and
  messages logged are counted as multisets, since the order of arrival is open.
\<close>

theorem validateReleaseCharts_fail_slow:
  assumes "0 < resourcePool w"
  shows "\<exists>run. validateReleaseCharts w s = Some run
       \<and> set (map (\<lambda>(apps, chart, version). (chart, version)) (probed run)) =
           {(Chart r, Version r) | k r. (k, r) \<in> set (entries (Apps s)) \<and> isConsideredToRun r}
       \<and> distinct (map (\<lambda>(apps, chart, version). (chart, version)) (probed run))
       \<and> length (probed run) \<le> len (Apps s)
       \<and> mset (received run) =
           mset (map (\<lambda>(apps, chart, version). validateChart w apps chart version) (probed run))
       \<and> mset (logged run) = mset (filter (\<lambda>err. err \<noteq> '''') (received run))
       \<and> returned run =
           (if \<exists>(apps, chart, version) \<in> set (probed run). validateChart w apps chart version \<noteq> ''''
            then Some (New ''chart validation failed'') else None)"
proof -
  let ?calls = "launched (group_charts (entries (Apps s)) [])"
  let ?c = "map (\<lambda>(apps, chart, version). validateChart w apps chart version) ?calls"
  let ?run = "\<lparr> returned = (if \<exists>(apps, chart, version) \<in> set ?calls.
                                 validateChart w apps chart version \<noteq> ''''
                            then Some (New ''chart validation failed'') else None),
                probed = ?calls, received = ?c,
                logged = filter (\<lambda>err. err \<noteq> '''') ?c \<rparr>"
  have inv0: "charts_inv []" by (simp add: charts_inv_def)
  note inv = group_charts_inv [OF inv0, of "entries (Apps s)"]
  have 0: "validateReleaseCharts w s = Some ?run"
    using assms by (rule validateReleaseCharts_run)
  have pr: "probed ?run = ?calls" by simp
  have 1: "set (map (\<lambda>(apps, chart, version). (chart, version)) (probed ?run)) =
           {(Chart r, Version r) | k r. (k, r) \<in> set (entries (Apps s)) \<and> isConsideredToRun r}"
    unfolding pr launched_chart_versions using inv [THEN conjunct2]
    by (simp add: chart_versions_def)
  have 2: "distinct (map (\<lambda>(apps, chart, version). (chart, version)) (probed ?run))"
    unfolding pr launched_chart_versions using inv [THEN conjunct1] by (rule distinct_chart_versions)
  have 3: "length (probed ?run) \<le> len (Apps s)"
    unfolding pr using group_charts_length [of "entries (Apps s)" "[]"] by (simp add: launched_def len_def)
  have 4: "mset (received ?run) =
           mset (map (\<lambda>(apps, chart, version). validateChart w apps chart version) (probed ?run))"
    by simp
  have 5: "mset (logged ?run) = mset (filter (\<lambda>err. err \<noteq> '''') (received ?run))"
    by simp
  have 6: "returned ?run =
           (if \<exists>(apps, chart, version) \<in> set (probed ?run). validateChart w apps chart version \<noteq> ''''
            then Some (New ''chart validation failed'') else None)"
    by simp
  from 0 1 2 3 4 5 6 show ?thesis by (intro exI [of _ ?run] conjI)
qed

lemma example_charts_launched:
  "launched (group_charts (entries (Apps example_charts)) []) =
     [(''a'', ''repo/x'', ''''), (''b, e'', ''repo/y'', ''1.0''), (''c'', ''repo/z'', '''')]"
  by (simp add: example_charts_def state_zero_def release_zero_def entries_def launched_def
        isConsideredToRun_def Let_def)

lemma example_charts_run:
  "validateReleaseCharts example_world example_charts = Some \<lparr>
       returned = Some (New ''chart validation failed''),
       probed = [(''a'', ''repo/x'', ''''), (''b, e'', ''repo/y'', ''1.0''), (''c'', ''repo/z'', '''')],
       received = [''no version for a'', '''', ''no version for c''],
       logged = [''no version for a'', ''no version for c''] \<rparr>"
proof -
  have p: "0 < resourcePool example_world" by (simp add: example_world_def)
  show ?thesis
    unfolding validateReleaseCharts_run [OF p] example_charts_launched
    by (simp add: example_world_def)
qed

theorem validateReleaseCharts_fail_slow_witness:
  "0 < resourcePool example_world
   \<and> validateReleaseCharts example_world example_charts = Some \<lparr>
       returned = Some (New ''chart validation failed''),
       probed = [(''a'', ''repo/x'', ''''), (''b, e'', ''repo/y'', ''1.0''), (''c'', ''repo/z'', '''')],
       received = [''no version for a'', '''', ''no version for c''],
       logged = [''no version for a'', ''no version for c''] \<rparr>
   \<and> (\<exists>run. validateReleaseCharts example_world example_charts = Some run
         \<and> size (mset (received run)) = 3 \<and> size (mset (logged run)) = 2
         \<and> returned run = Some (New ''chart validation failed''))"
proof -
  have p: "0 < resourcePool example_world" by (simp add: example_world_def)
  from validateReleaseCharts_fail_slow [OF p, of example_charts]
  obtain run where r: "validateReleaseCharts example_world example_charts = Some run"
    and rec: "mset (received run) =
           mset (map (\<lambda>(apps, chart, version). validateChart example_world apps chart version) (probed run))"
    and log: "mset (logged run) = mset (filter (\<lambda>err. err \<noteq> '''') (received run))"
    and ret: "returned run =
           (if \<exists>(apps, chart, version) \<in> set (probed run). validateChart example_world apps chart version \<noteq> ''''
            then Some (New ''chart validation failed'') else None)"
    by blast
  from r example_charts_run have run: "run = \<lparr>
       returned = Some (New ''chart validation failed''),
       probed = [(''a'', ''repo/x'', ''''), (''b, e'', ''repo/y'', ''1.0''), (''c'', ''repo/z'', '''')],
       received = [''no version for a'', '''', ''no version for c''],
       logged = [''no version for a'', ''no version for c''] \<rparr>"
    by simp
  have pr: "probed run =
      [(''a'', ''repo/x'', ''''), (''b, e'', ''repo/y'', ''1.0''), (''c'', ''repo/z'', '''')]"
    and rc: "received run = [''no version for a'', '''', ''no version for c'']"
    unfolding run by simp_all
  have a: "size (mset (received run)) = 3"
    unfolding rec pr by simp
  have b: "size (mset (logged run)) = 2"
    unfolding log rc by simp
  have c: "returned run = Some (New ''chart validation failed'')"
    unfolding ret pr by (simp add: example_world_def)
  from r a b c have e: "\<exists>run. validateReleaseCharts example_world example_charts = Some run
         \<and> size (mset (received run)) = 3 \<and> size (mset (logged run)) = 2
         \<and> returned run = Some (New ''chart validation failed'')"
    by blast
  from p example_charts_run e show ?thesis by (intro conjI)
qed

end
